theory Spec2Isabelle
  imports Main "HOL-Library.Monad_Syntax"
begin

section \<open>Strings\<close>

text \<open>
  A JavaScript string is a sequence of UTF-16 code units and \<open>length\<close> counts code units.
  A code unit is modelled as a natural number; \<open>js\<close> embeds an ASCII literal, and text
  outside ASCII is written as the list of its code units.
\<close>

type_synonym jstring = "nat list"

definition js :: "string \<Rightarrow> jstring" where
  "js s = map of_char s"

definition nl :: jstring where
  "nl = [10]"

text \<open>\<open>Array.prototype.join\<close> on an array of strings.\<close>

fun join :: "jstring \<Rightarrow> jstring list \<Rightarrow> jstring" where
  "join sep [] = []"
| "join sep [x] = x"
| "join sep (x # y # ys) = x @ sep @ join sep (y # ys)"

text \<open>\<open>String.prototype.startsWith\<close> and \<open>String.prototype.includes\<close>.\<close>

fun startsWith :: "jstring \<Rightarrow> jstring \<Rightarrow> bool" where
  "startsWith s [] = True"
| "startsWith [] (p # ps) = False"
| "startsWith (c # cs) (p # ps) = (c = p \<and> startsWith cs ps)"

fun str_includes :: "jstring \<Rightarrow> jstring \<Rightarrow> bool" where
  "str_includes [] p = (p = [])"
| "str_includes (c # cs) p = (startsWith (c # cs) p \<or> str_includes cs p)"

text \<open>Splitting a string at every character that satisfies a predicate.\<close>

fun split_where :: "(nat \<Rightarrow> bool) \<Rightarrow> jstring \<Rightarrow> jstring list" where
  "split_where P [] = [[]]"
| "split_where P (x # xs) =
     (if P x then [] # split_where P xs
      else (case split_where P xs of [] \<Rightarrow> [[x]] | p # ps \<Rightarrow> (x # p) # ps))"

text \<open>
  The characters matched by \<open>\s\<close> in a regular expression and removed by
  \<open>String.prototype.trim\<close>: white space and line terminators.
\<close>

definition is_space :: "nat \<Rightarrow> bool" where
  "is_space c =
     (c = 9 \<or> c = 10 \<or> c = 11 \<or> c = 12 \<or> c = 13 \<or> c = 32 \<or> c = 0xA0 \<or> c = 0x1680 \<or>
      (0x2000 \<le> c \<and> c \<le> 0x200A) \<or> c = 0x2028 \<or> c = 0x2029 \<or> c = 0x202F \<or>
      c = 0x205F \<or> c = 0x3000 \<or> c = 0xFEFF)"

definition trim :: "jstring \<Rightarrow> jstring" where
  "trim s = rev (dropWhile is_space (rev (dropWhile is_space s)))"

text \<open>
  Case folding of the \<open>i\<close> flag. The patterns of this program are ASCII, and a character
  outside ASCII never folds to an ASCII one, so only the ASCII letters are folded.
\<close>

definition fold_case :: "nat \<Rightarrow> nat" where
  "fold_case c = (if 65 \<le> c \<and> c \<le> 90 then c + 32 else c)"

section \<open>Regular expressions of \<open>config.ts\<close>\<close>

text \<open>
  Every regular expression of \<open>cleanHtmlForRichText\<close> is a sequence of literals, of runs
  \<open>[^c]*c\<close> that end at the first \<open>c\<close>, of white space runs \<open>\s*\<close> followed by a
  literal that is not white space, and of one lazy \<open>.*?\<close> followed by a literal. On such
  a pattern backtracking finds at most one match at a position, so a pattern is modelled
  as a matcher: a function from the text at a position to the replacement and the text
  after the match, or \<open>None\<close> when the pattern does not match there.
\<close>

type_synonym matcher = "jstring \<Rightarrow> (jstring \<times> jstring) option"

text \<open>A literal, case sensitive and case insensitive.\<close>

fun lit :: "jstring \<Rightarrow> jstring \<Rightarrow> jstring option" where
  "lit [] s = Some s"
| "lit (p # ps) [] = None"
| "lit (p # ps) (c # cs) = (if p = c then lit ps cs else None)"

fun lit_ci :: "jstring \<Rightarrow> jstring \<Rightarrow> jstring option" where
  "lit_ci [] s = Some s"
| "lit_ci (p # ps) [] = None"
| "lit_ci (p # ps) (c # cs) = (if fold_case p = fold_case c then lit_ci ps cs else None)"

text \<open>\<open>[^c]*c\<close>: the run before the first \<open>c\<close> (the capture) and the text after it.\<close>

fun upto :: "nat \<Rightarrow> jstring \<Rightarrow> (jstring \<times> jstring) option" where
  "upto c [] = None"
| "upto c (x # xs) =
     (if x = c then Some ([], xs)
      else (case upto c xs of None \<Rightarrow> None | Some (a, r) \<Rightarrow> Some (x # a, r)))"

text \<open>\<open>\s*\<close> before a literal that does not begin with white space.\<close>

definition skip_ws :: "jstring \<Rightarrow> jstring" where
  "skip_ws s = dropWhile is_space s"

text \<open>\<open>.*?p\<close> with the flags \<open>s\<close> and \<open>i\<close>: the text after the first occurrence of \<open>p\<close>.\<close>

fun after_first_ci :: "jstring \<Rightarrow> jstring \<Rightarrow> jstring option" where
  "after_first_ci p [] = lit_ci p []"
| "after_first_ci p (c # cs) =
     (case lit_ci p (c # cs) of Some r \<Rightarrow> Some r | None \<Rightarrow> after_first_ci p cs)"

text \<open>An alternation \<open>(a|b|c)\<close> of literals: the first alternative that matches.\<close>

fun lit_alt :: "jstring list \<Rightarrow> jstring \<Rightarrow> jstring option" where
  "lit_alt [] s = None"
| "lit_alt (p # ps) s = (case lit p s of Some r \<Rightarrow> Some r | None \<Rightarrow> lit_alt ps s)"

text \<open>
  \<open>String.prototype.replace\<close> with a global pattern: the text is scanned from the left;
  where the pattern matches, the match is replaced and the scan goes on after it;
  elsewhere the character is kept. No pattern of this program matches the empty string.
\<close>

function replace_all :: "matcher \<Rightarrow> jstring \<Rightarrow> jstring" where
  "replace_all m [] = []"
| "replace_all m (c # cs) =
     (case m (c # cs) of
        None \<Rightarrow> c # replace_all m cs
      | Some (r, rest) \<Rightarrow>
          if length rest \<le> length cs then r @ replace_all m rest
          else c # replace_all m cs)"
  by pat_completeness auto
termination
  by (relation "measure (\<lambda>(m, s). length s)") auto

text \<open>\<open>new RegExp(`<${tag}[^>]*>.*?</${tag}>`, 'gis')\<close>, replaced by the empty string.\<close>

definition tag_block :: "jstring \<Rightarrow> matcher" where
  "tag_block tag s =
     do {
       r1 \<leftarrow> lit_ci (js ''<'' @ tag) s;
       (a, r2) \<leftarrow> upto 62 r1;
       r3 \<leftarrow> after_first_ci (js ''</'' @ tag @ js ''>'') r2;
       Some ([], r3)
     }"

text \<open>\<open>/<(div|span)\s*[^>]*>\s*<\/(div|span)>/g\<close>, replaced by the empty string.\<close>

definition empty_container :: matcher where
  "empty_container s =
     do {
       r1 \<leftarrow> lit_alt [js ''<div'', js ''<span''] s;
       (a, r2) \<leftarrow> upto 62 r1;
       r3 \<leftarrow> lit_alt [js ''</div>'', js ''</span>''] (skip_ws r2);
       Some ([], r3)
     }"

text \<open>\<open>/<img([^>]*)>/g\<close>, replaced by the tag with a style attribute added.\<close>

definition img_tag :: matcher where
  \<open>img_tag s =
     do {
       r1 \<leftarrow> lit (js ''<img'') s;
       (a, r2) \<leftarrow> upto 62 r1;
       Some (js ''<img'' @ a @ js '' style="max-width:100%;height:auto;display:block;margin:10px 0;">'', r2)
     }\<close>

text \<open>
  \<open>/\s(id|class|data-[^=]*|onclick|onload|onerror)="[^"]*"/g\<close>, replaced by the empty
  string. The alternatives are tried in the order of the pattern, each followed by the
  quoted value.
\<close>

definition attr_names :: "(jstring \<Rightarrow> jstring option) list" where
  "attr_names =
     [lit (js ''id''), lit (js ''class''),
      (\<lambda>s. map_option (dropWhile (\<lambda>c. c \<noteq> 61)) (lit (js ''data-'') s)),
      lit (js ''onclick''), lit (js ''onload''), lit (js ''onerror'')]"

definition quoted_value :: "jstring \<Rightarrow> jstring option" where
  \<open>quoted_value s =
     do {
       r1 \<leftarrow> lit (js ''="'') s;
       (a, r2) \<leftarrow> upto 34 r1;
       Some r2
     }\<close>

fun first_attr :: "(jstring \<Rightarrow> jstring option) list \<Rightarrow> jstring \<Rightarrow> jstring option" where
  "first_attr [] s = None"
| "first_attr (f # fs) s =
     (case Option.bind (f s) quoted_value of Some r \<Rightarrow> Some r | None \<Rightarrow> first_attr fs s)"

definition unsupported_attr :: matcher where
  "unsupported_attr s =
     (case s of
        [] \<Rightarrow> None
      | c # cs \<Rightarrow>
          if is_space c then map_option (Pair []) (first_attr attr_names cs) else None)"

text \<open>\<open>/<(div|section|article)([^>]*)>/g\<close>, replaced by \<open><p$2>\<close>.\<close>

definition open_container :: matcher where
  "open_container s =
     do {
       r1 \<leftarrow> lit_alt [js ''<div'', js ''<section'', js ''<article''] s;
       (a, r2) \<leftarrow> upto 62 r1;
       Some (js ''<p'' @ a @ js ''>'', r2)
     }"

text \<open>\<open>/<\/(div|section|article)>/g\<close>, replaced by \<open></p>\<close>.\<close>

definition close_container :: matcher where
  "close_container s =
     do {
       r1 \<leftarrow> lit_alt [js ''</div>'', js ''</section>'', js ''</article>''] s;
       Some (js ''</p>'', r1)
     }"

text \<open>\<open>/<p[^>]*>\s*<p[^>]*>/g\<close>, replaced by \<open><p>\<close>.\<close>

definition nested_p_open :: matcher where
  "nested_p_open s =
     do {
       r1 \<leftarrow> lit (js ''<p'') s;
       (a, r2) \<leftarrow> upto 62 r1;
       r3 \<leftarrow> lit (js ''<p'') (skip_ws r2);
       (b, r4) \<leftarrow> upto 62 r3;
       Some (js ''<p>'', r4)
     }"

text \<open>\<open>/<\/p>\s*<\/p>/g\<close>, replaced by \<open></p>\<close>.\<close>

definition nested_p_close :: matcher where
  "nested_p_close s =
     do {
       r1 \<leftarrow> lit (js ''</p>'') s;
       r2 \<leftarrow> lit (js ''</p>'') (skip_ws r1);
       Some (js ''</p>'', r2)
     }"

text \<open>\<open>/<p[^>]*>\s*<\/p>/g\<close>, replaced by the empty string.\<close>

definition empty_p :: matcher where
  "empty_p s =
     do {
       r1 \<leftarrow> lit (js ''<p'') s;
       (a, r2) \<leftarrow> upto 62 r1;
       r3 \<leftarrow> lit (js ''</p>'') (skip_ws r2);
       Some ([], r3)
     }"

text \<open>\<open>/<[^>]*>/g\<close>, replaced by the empty string.\<close>

definition any_tag :: matcher where
  "any_tag s =
     do {
       r1 \<leftarrow> lit (js ''<'') s;
       (a, r2) \<leftarrow> upto 62 r1;
       Some ([], r2)
     }"

section \<open>\<open>config.ts\<close>\<close>

record HotNewsSource =
  name :: jstring
  description :: jstring

definition HOT_NEWS_SOURCES :: "int \<Rightarrow> HotNewsSource option" where
  "HOT_NEWS_SOURCES sourceId =
    (if sourceId = 1 then Some \<lparr>name = js ''zhihuHot'', description = js ''Zhihu Hot List ('' @ [0x77E5, 0x4E4E, 0x70ED, 0x699C] @ js '')''\<rparr>
     else if sourceId = 2 then Some \<lparr>name = js ''36Ke'', description = js ''36Kr Hot List (36'' @ [0x6C2A, 0x70ED, 0x699C] @ js '')''\<rparr>
     else if sourceId = 3 then Some \<lparr>name = js ''baiduRD'', description = js ''Baidu Hot Discussion ('' @ [0x767E, 0x5EA6, 0x70ED, 0x70B9] @ js '')''\<rparr>
     else if sourceId = 4 then Some \<lparr>name = js ''bili'', description = js ''Bilibili Hot List (B'' @ [0x7AD9, 0x70ED, 0x699C] @ js '')''\<rparr>
     else if sourceId = 5 then Some \<lparr>name = js ''wbHot'', description = js ''Weibo Hot Search ('' @ [0x5FAE, 0x535A, 0x70ED, 0x641C] @ js '')''\<rparr>
     else if sourceId = 6 then Some \<lparr>name = js ''douyinHot'', description = js ''Douyin Hot List ('' @ [0x6296, 0x97F3, 0x70ED, 0x70B9] @ js '')''\<rparr>
     else if sourceId = 7 then Some \<lparr>name = js ''huPu'', description = js ''Hupu Hot List ('' @ [0x864E, 0x6251, 0x70ED, 0x699C] @ js '')''\<rparr>
     else if sourceId = 8 then Some \<lparr>name = js ''douban'', description = js ''Douban Hot List ('' @ [0x8C46, 0x74E3, 0x70ED, 0x699C] @ js '')''\<rparr>
     else if sourceId = 9 then Some \<lparr>name = js ''itNews'', description = js ''IT News (IT'' @ [0x65B0, 0x95FB] @ js '')''\<rparr>
     else None)"

definition source_ids :: "int list" where
  "source_ids = [1, 2, 3, 4, 5, 6, 7, 8, 9]"

definition getMaxSourceId :: int where
  "getMaxSourceId = fold max source_ids (hd source_ids)"

definition unsupportedTags :: "jstring list" where
  "unsupportedTags =
     [js ''script'', js ''style'', js ''iframe'', js ''object'', js ''embed'', js ''form'',
      js ''input'', js ''button'', js ''nav'', js ''header'', js ''footer'', js ''aside'',
      js ''canvas'', js ''svg'']"

definition no_content :: jstring where
  "no_content = js ''<p>'' @ [0x6682, 0x65E0, 0x5185, 0x5BB9] @ js ''</p>''"

definition content_loading :: jstring where
  "content_loading =
     js ''<p>'' @ [0x5185, 0x5BB9, 0x6B63, 0x5728, 0x52A0, 0x8F7D, 0x4E2D, 0xFF0C, 0x8BF7, 0x7A0D, 0x540E] @ js ''...</p>''"

text \<open>The tag removal loop, \<open>unsupportedTags.forEach\<close>.\<close>

definition remove_unsupported :: "jstring \<Rightarrow> jstring" where
  "remove_unsupported html = fold (\<lambda>tag cleanHtml. replace_all (tag_block tag) cleanHtml) unsupportedTags html"

text \<open>The rewriting steps between the tag removal and the length checks, in source order.\<close>

definition simplify_markup :: "jstring \<Rightarrow> jstring" where
  "simplify_markup h0 =
     (let h1 = replace_all empty_container h0;
          h2 = replace_all img_tag h1;
          h3 = replace_all unsupported_attr h2;
          h4 = replace_all open_container h3;
          h5 = replace_all close_container h4;
          h6 = replace_all nested_p_open h5;
          h7 = replace_all nested_p_close h6
      in replace_all empty_p h7)"

definition cleanHtmlForRichText :: "jstring \<Rightarrow> jstring" where
  "cleanHtmlForRichText html =
     (if html = [] then no_content
      else
        let cleanHtml = simplify_markup (remove_unsupported html);
            textContent = trim (replace_all any_tag cleanHtml)
        in if length textContent < 10 then content_loading
           else if length cleanHtml > 50000 then take 50000 cleanHtml @ js ''...</p>''
           else cleanHtml)"

section \<open>\<open>SimpleCache\<close>\<close>

text \<open>
  The cache is a \<open>Map\<close> from keys to entries. The clock (\<open>Date.now()\<close>, in milliseconds)
  is an argument of each operation; \<open>get\<close> returns the value read and the cache after
  the lazy eviction.
\<close>

record 'v cache_item =
  item_data :: 'v
  item_expires :: int

type_synonym 'v simple_cache = "jstring \<Rightarrow> 'v cache_item option"

definition cache_set :: "int \<Rightarrow> jstring \<Rightarrow> 'v \<Rightarrow> int \<Rightarrow> 'v simple_cache \<Rightarrow> 'v simple_cache" where
  "cache_set now key v ttlMinutes cache =
     cache(key \<mapsto> \<lparr>item_data = v, item_expires = now + ttlMinutes * 60 * 1000\<rparr>)"

definition cache_get :: "int \<Rightarrow> jstring \<Rightarrow> 'v simple_cache \<Rightarrow> 'v option \<times> 'v simple_cache" where
  "cache_get now key cache =
     (case cache key of
        None \<Rightarrow> (None, cache(key := None))
      | Some item \<Rightarrow>
          if now > item_expires item then (None, cache(key := None))
          else (Some (item_data item), cache))"

definition cache_clear :: "'v simple_cache \<Rightarrow> 'v simple_cache" where
  "cache_clear cache = Map.empty"

section \<open>The platform's \<open>URL\<close> class\<close>

text \<open>
  \<open>new URL(...)\<close> belongs to the platform, not to this program. The functions that use
  it take its behaviour as an argument: \<open>url_hostname U s\<close> is \<open>new URL(s).hostname\<close>
  and \<open>url_resolve U r b\<close> is \<open>new URL(r, new URL(b)).toString()\<close>, both \<open>None\<close> when
  the constructor throws. The general theorems hold for every such \<open>U\<close>.
\<close>

record url_api =
  url_hostname :: "jstring \<Rightarrow> jstring option"
  url_resolve :: "jstring \<Rightarrow> jstring \<Rightarrow> jstring option"

text \<open>
  For the concrete examples, \<open>std_url\<close> is a model of the constructor on hierarchical
  URLs \<open>scheme://authority/path?query#fragment\<close> and on references relative to them.
  A string without a scheme and without a base is rejected, as the URL standard says.
  Percent-encoding, dot segments, IPv6 literals, default ports and host validation are
  not modelled.
\<close>

definition is_alpha :: "nat \<Rightarrow> bool" where
  "is_alpha c = ((65 \<le> c \<and> c \<le> 90) \<or> (97 \<le> c \<and> c \<le> 122))"

definition is_digit :: "nat \<Rightarrow> bool" where
  "is_digit c = (48 \<le> c \<and> c \<le> 57)"

definition scheme_char :: "nat \<Rightarrow> bool" where
  "scheme_char c = (is_alpha c \<or> is_digit c \<or> c = 43 \<or> c = 45 \<or> c = 46)"

text \<open>Leading and trailing C0 controls and spaces are stripped, tabs and newlines removed.\<close>

definition url_input :: "jstring \<Rightarrow> jstring" where
  "url_input s =
     filter (\<lambda>c. c \<noteq> 9 \<and> c \<noteq> 10 \<and> c \<noteq> 13)
       (rev (dropWhile (\<lambda>c. c \<le> 32) (rev (dropWhile (\<lambda>c. c \<le> 32) s))))"

definition split_scheme :: "jstring \<Rightarrow> (jstring \<times> jstring) option" where
  "split_scheme s =
     (case s of
        [] \<Rightarrow> None
      | c # cs \<Rightarrow>
          if is_alpha c then
            (case dropWhile scheme_char s of
               [] \<Rightarrow> None
             | d # r \<Rightarrow> if d = 58 then Some (map fold_case (takeWhile scheme_char s), r) else None)
          else None)"

record url =
  url_scheme :: jstring
  url_authority :: jstring
  url_path :: jstring
  url_query :: jstring
  url_fragment :: jstring

definition path_end :: "nat \<Rightarrow> bool" where
  "path_end c = (c = 63 \<or> c = 35)"

definition authority_end :: "nat \<Rightarrow> bool" where
  "authority_end c = (c = 47 \<or> c = 63 \<or> c = 35)"

definition parse_url :: "jstring \<Rightarrow> url option" where
  "parse_url s =
     (case split_scheme (url_input s) of
        None \<Rightarrow> None
      | Some (scheme, r) \<Rightarrow>
          let hier = startsWith r (js ''//'');
              r1 = (if hier then drop 2 r else r);
              auth = (if hier then takeWhile (\<lambda>c. \<not> authority_end c) r1 else []);
              r2 = (if hier then dropWhile (\<lambda>c. \<not> authority_end c) r1 else r1);
              path = takeWhile (\<lambda>c. \<not> path_end c) r2;
              r3 = dropWhile (\<lambda>c. \<not> path_end c) r2
          in Some \<lparr>url_scheme = scheme, url_authority = auth,
                    url_path = (if hier \<and> path = [] then js ''/'' else path),
                    url_query = takeWhile (\<lambda>c. c \<noteq> 35) r3,
                    url_fragment = dropWhile (\<lambda>c. c \<noteq> 35) r3\<rparr>)"

definition url_string :: "url \<Rightarrow> jstring" where
  "url_string u =
     url_scheme u @ js '':'' @ (if url_authority u = [] then [] else js ''//'' @ url_authority u) @
     url_path u @ url_query u @ url_fragment u"

text \<open>The host of an authority \<open>userinfo@host:port\<close>, in lower case.\<close>

definition host_of :: "jstring \<Rightarrow> jstring" where
  "host_of auth =
     (let h = (if 64 \<in> set auth then rev (takeWhile (\<lambda>c. c \<noteq> 64) (rev auth)) else auth)
      in map fold_case (takeWhile (\<lambda>c. c \<noteq> 58) h))"

definition std_hostname :: "jstring \<Rightarrow> jstring option" where
  "std_hostname s = map_option (\<lambda>u. host_of (url_authority u)) (parse_url s)"

text \<open>The directory of a path: the path up to and including its last slash.\<close>

definition dir_of :: "jstring \<Rightarrow> jstring" where
  "dir_of p = rev (dropWhile (\<lambda>c. c \<noteq> 47) (rev p))"

definition std_resolve :: "jstring \<Rightarrow> jstring \<Rightarrow> jstring option" where
  "std_resolve ref base =
     (case parse_url base of
        None \<Rightarrow> None
      | Some b \<Rightarrow>
          (case parse_url ref of
             Some u \<Rightarrow> Some (url_string u)
           | None \<Rightarrow>
               let r = url_input ref;
                   path = takeWhile (\<lambda>c. \<not> path_end c) r;
                   r1 = dropWhile (\<lambda>c. \<not> path_end c) r;
                   query = takeWhile (\<lambda>c. c \<noteq> 35) r1;
                   fragment = dropWhile (\<lambda>c. c \<noteq> 35) r1
               in if startsWith r (js ''//'') then
                    map_option url_string (parse_url (url_scheme b @ js '':'' @ r))
                  else if startsWith r (js ''/'') then
                    Some (url_string (b\<lparr>url_path := path, url_query := query, url_fragment := fragment\<rparr>))
                  else if path = [] then
                    Some (url_string (b\<lparr>url_query := (if query = [] then url_query b else query),
                                          url_fragment := fragment\<rparr>))
                  else
                    Some (url_string (b\<lparr>url_path := dir_of (url_path b) @ path, url_query := query,
                                          url_fragment := fragment\<rparr>))))"

definition std_url :: url_api where
  "std_url = \<lparr>url_hostname = std_hostname, url_resolve = std_resolve\<rparr>"

section \<open>Fallback content\<close>

datatype error = Error jstring | TypeError jstring

record ArticleContent =
  art_title :: jstring
  art_content :: jstring
  art_summary :: jstring

definition getSiteName :: "jstring \<Rightarrow> jstring" where
  "getSiteName hostname =
     (if str_includes hostname (js ''zhihu.com'') then [0x77E5, 0x4E4E]
      else if str_includes hostname (js ''36kr.com'') then js ''36'' @ [0x6C2A]
      else if str_includes hostname (js ''bilibili.com'') \<or> str_includes hostname (js ''b23.tv'')
        then js ''B'' @ [0x7AD9]
      else if str_includes hostname (js ''weibo.com'') then [0x5FAE, 0x535A]
      else if str_includes hostname (js ''douyin.com'') then [0x6296, 0x97F3]
      else if str_includes hostname (js ''hupu.com'') then [0x864E, 0x6251]
      else if str_includes hostname (js ''douban.com'') then [0x8C46, 0x74E3]
      else if str_includes hostname (js ''baidu.com'') then [0x767E, 0x5EA6]
      else [0x672A, 0x77E5, 0x7F51, 0x7AD9])"

definition getPlatformDescription :: "jstring \<Rightarrow> jstring" where
  "getPlatformDescription hostname =
     (if str_includes hostname (js ''zhihu.com'') then
        [0x77E5, 0x4E4E, 0x662F, 0x4E2D, 0x6587, 0x4E92, 0x8054, 0x7F51, 0x9AD8, 0x8D28, 0x91CF, 0x7684, 0x95EE, 0x7B54, 0x793E, 0x533A, 0xFF0C, 0x6C47, 0x805A, 0x4E86, 0x5404, 0x884C, 0x5404, 0x4E1A, 0x7684, 0x4E13, 0x4E1A, 0x4EBA, 0x58EB, 0x5206, 0x4EAB, 0x77E5, 0x8BC6, 0x3001, 0x7ECF, 0x9A8C, 0x548C, 0x89C1, 0x89E3, 0x3002]
      else if str_includes hostname (js ''36kr.com'') then
        js ''36'' @ [0x6C2A, 0x662F, 0x4E2D, 0x56FD, 0x9886, 0x5148, 0x7684, 0x79D1, 0x6280, 0x521B, 0x4E1A, 0x5A92, 0x4F53, 0xFF0C, 0x4E13, 0x6CE8, 0x62A5, 0x9053, 0x521B, 0x4E1A, 0x516C, 0x53F8, 0x3001, 0x6295, 0x8D44, 0x673A, 0x6784, 0x548C, 0x79D1, 0x6280, 0x8D8B, 0x52BF, 0x3002]
      else if str_includes hostname (js ''bilibili.com'') then
        js ''B'' @ [0x7AD9, 0x662F, 0x4E2D, 0x56FD, 0x5E74, 0x8F7B, 0x4EBA, 0x805A, 0x96C6, 0x7684, 0x6587, 0x5316, 0x793E, 0x533A, 0xFF0C, 0x6DB5, 0x76D6, 0x52A8, 0x753B, 0x3001, 0x6E38, 0x620F, 0x3001, 0x79D1, 0x6280, 0x3001, 0x751F, 0x6D3B, 0x7B49, 0x591A, 0x5143, 0x5316, 0x5185, 0x5BB9, 0x3002]
      else
        [0x8FD9, 0x662F, 0x4E00, 0x4E2A, 0x70ED, 0x95E8, 0x7684, 0x4E2D, 0x6587, 0x7F51, 0x7AD9, 0xFF0C, 0x63D0, 0x4F9B, 0x4E30, 0x5BCC, 0x7684, 0x8D44, 0x8BAF, 0x548C, 0x5185, 0x5BB9, 0x3002])"

text \<open>The two templates of \<open>generateFallbackContent\<close>, one list element for each line.\<close>

definition video_fallback :: "jstring \<Rightarrow> jstring \<Rightarrow> jstring \<Rightarrow> jstring \<Rightarrow> jstring" where
  \<open>video_fallback siteName summary url hostname =
     join nl
       [[],
        js ''        <div class="fallback-content">'',
        js ''          <div class="content-notice">'',
        js ''            <h3>'' @ [0xD83C, 0xDFAC] @ js '' '' @ [0x89C6, 0x9891, 0x5185, 0x5BB9, 0x9884, 0x89C8] @ js ''</h3>'',
        js ''            <p><strong>'' @ [0x6765, 0x6E90, 0xFF1A] @ js ''</strong>'' @ siteName @ js ''</p>'',
        js ''            <p><strong>'' @ [0x8BF4, 0x660E, 0xFF1A] @ js ''</strong>'' @ [0x8FD9, 0x662F, 0x4E00, 0x4E2A] @ js ''B'' @ [0x7AD9, 0x89C6, 0x9891, 0x94FE, 0x63A5, 0xFF0C, 0x65E0, 0x6CD5, 0x76F4, 0x63A5, 0x5728, 0x6B64, 0x9875, 0x9762, 0x64AD, 0x653E, 0x3002] @ js ''</p>'',
        js ''          </div>'',
        js ''          '',
        js ''          <div class="content-summary">'',
        js ''            <h4>'' @ [0xD83D, 0xDCCB] @ js '' '' @ [0x5185, 0x5BB9, 0x7B80, 0x4ECB] @ js ''</h4>'',
        js ''            <p>'' @ summary @ js ''</p>'',
        js ''          </div>'',
        js ''          '',
        js ''          <div class="access-options">'',
        js ''            <h4>'' @ [0xD83C, 0xDFA5] @ js '' '' @ [0x89C2, 0x770B, 0x65B9, 0x5F0F] @ js ''</h4>'',
        js ''            <ul>'',
        js ''              <li><strong>'' @ [0x76F4, 0x63A5, 0x89C2, 0x770B, 0xFF1A] @ js ''</strong>'' @ js ''<a href="'' @ url @ js ''" target="_blank">'' @ [0x70B9, 0x51FB, 0x8FD9, 0x91CC, 0x6253, 0x5F00] @ js ''B'' @ [0x7AD9, 0x89C2, 0x770B] @ js ''</a></li>'',
        js ''              <li><strong>'' @ [0x63A8, 0x8350, 0x8BBE, 0x5907, 0xFF1A] @ js ''</strong>'' @ [0x5EFA, 0x8BAE, 0x5728, 0x624B, 0x673A, 0x6216, 0x7535, 0x8111, 0x4E0A, 0x89C2, 0x770B, 0xFF0C, 0x83B7, 0x5F97, 0x66F4, 0x597D, 0x7684, 0x4F53, 0x9A8C] @ js ''</li>'',
        js ''              <li><strong>'' @ [0x4E92, 0x52A8, 0x529F, 0x80FD, 0xFF1A] @ js ''</strong>B'' @ [0x7AD9, 0x652F, 0x6301, 0x5F39, 0x5E55, 0x3001, 0x8BC4, 0x8BBA, 0x3001, 0x70B9, 0x8D5E, 0x7B49, 0x4E30, 0x5BCC, 0x7684, 0x4E92, 0x52A8, 0x529F, 0x80FD] @ js ''</li>'',
        js ''              <li><strong>'' @ [0x76F8, 0x5173, 0x63A8, 0x8350, 0xFF1A] @ js ''</strong>'' @ [0x89C2, 0x770B, 0x540E, 0x53EF, 0x4EE5, 0x53D1, 0x73B0, 0x66F4, 0x591A, 0x76F8, 0x4F3C, 0x7684, 0x4F18, 0x8D28, 0x5185, 0x5BB9] @ js ''</li>'',
        js ''            </ul>'',
        js ''          </div>'',
        js ''          '',
        js ''          <div class="platform-info">'',
        js ''            <h4>'' @ [0xD83D, 0xDCA1] @ js '' '' @ [0x5173, 0x4E8E] @ js ''B'' @ [0x7AD9] @ js ''</h4>'',
        js ''            <p>'' @ getPlatformDescription hostname @ js ''</p>'',
        js ''            <p><strong>'' @ [0x7279, 0x8272, 0xFF1A] @ js ''</strong>'' @ [0x5F39, 0x5E55, 0x6587, 0x5316, 0x3001] @ js ''UP'' @ [0x4E3B, 0x521B, 0x4F5C, 0x3001, 0x4E8C, 0x6B21, 0x5143, 0x5185, 0x5BB9, 0x3001, 0x5B66, 0x4E60, 0x89C6, 0x9891, 0x3001, 0x751F, 0x6D3B, 0x8BB0, 0x5F55, 0x7B49, 0x3002] @ js ''</p>'',
        js ''          </div>'',
        js ''        </div>'',
        js ''      '']\<close>

definition generic_fallback :: "jstring \<Rightarrow> jstring \<Rightarrow> jstring \<Rightarrow> jstring \<Rightarrow> jstring" where
  \<open>generic_fallback siteName summary url hostname =
     join nl
       [[],
        js ''      <div class="fallback-content">'',
        js ''        <div class="content-notice">'',
        js ''          <h3>'' @ [0xD83D, 0xDCDA] @ js '' '' @ [0x5185, 0x5BB9, 0x9884, 0x89C8] @ js ''</h3>'',
        js ''          <p><strong>'' @ [0x6765, 0x6E90, 0xFF1A] @ js ''</strong>'' @ siteName @ js ''</p>'',
        js ''          <p><strong>'' @ [0x8BF4, 0x660E, 0xFF1A] @ js ''</strong>'' @ [0x7531, 0x4E8E, 0x7F51, 0x7AD9, 0x7684, 0x8BBF, 0x95EE, 0x4FDD, 0x62A4, 0x673A, 0x5236, 0xFF0C, 0x6211, 0x4EEC, 0x65E0, 0x6CD5, 0x76F4, 0x63A5, 0x83B7, 0x53D6, 0x5B8C, 0x6574, 0x5185, 0x5BB9, 0x3002] @ js ''</p>'',
        js ''        </div>'',
        js ''        '',
        js ''        <div class="content-summary">'',
        js ''          <h4>'' @ [0xD83D, 0xDCCB] @ js '' '' @ [0x5185, 0x5BB9, 0x6458, 0x8981] @ js ''</h4>'',
        js ''          <p>'' @ (if summary = [] then [0x8FD9, 0x662F, 0x4E00, 0x4E2A, 0x70ED, 0x95E8, 0x8BDD, 0x9898, 0xFF0C, 0x5438, 0x5F15, 0x4E86, 0x4F17, 0x591A, 0x7528, 0x6237, 0x7684, 0x5173, 0x6CE8, 0x548C, 0x8BA8, 0x8BBA, 0x3002] else summary) @ js ''</p>'',
        js ''        </div>'',
        js ''        '',
        js ''        <div class="access-options">'',
        js ''          <h4>'' @ [0xD83D, 0xDD17] @ js '' '' @ [0x67E5, 0x770B, 0x65B9, 0x5F0F] @ js ''</h4>'',
        js ''          <ul>'',
        js ''            <li><strong>'' @ [0x76F4, 0x63A5, 0x8BBF, 0x95EE, 0xFF1A] @ js ''</strong>'' @ js ''<a href="'' @ url @ js ''" target="_blank">'' @ [0x70B9, 0x51FB, 0x8FD9, 0x91CC, 0x67E5, 0x770B, 0x539F, 0x6587] @ js ''</a></li>'',
        js ''            <li><strong>'' @ [0x5EFA, 0x8BAE, 0xFF1A] @ js ''</strong>'' @ [0x5728, 0x6D4F, 0x89C8, 0x5668, 0x4E2D, 0x6253, 0x5F00, 0x94FE, 0x63A5, 0x4EE5, 0x83B7, 0x5F97, 0x6700, 0x4F73, 0x9605, 0x8BFB, 0x4F53, 0x9A8C] @ js ''</li>'',
        js ''            <li><strong>'' @ [0x63D0, 0x793A, 0xFF1A] @ js ''</strong>'' @ [0x539F, 0x6587, 0x53EF, 0x80FD, 0x5305, 0x542B, 0x66F4, 0x4E30, 0x5BCC, 0x7684, 0x5185, 0x5BB9, 0x3001, 0x56FE, 0x7247, 0x548C, 0x4E92, 0x52A8, 0x529F, 0x80FD] @ js ''</li>'',
        js ''          </ul>'',
        js ''        </div>'',
        js ''        '',
        js ''        <div class="platform-info">'',
        js ''          <h4>'' @ [0xD83D, 0xDCA1] @ js '' '' @ [0x5E73, 0x53F0, 0x7279, 0x8272] @ js ''</h4>'',
        js ''          <p>'' @ getPlatformDescription hostname @ js ''</p>'',
        js ''        </div>'',
        js ''      </div>'',
        js ''    '']\<close>

text \<open>
  \<open>generateFallbackContent\<close> begins with \<open>new URL(url).hostname\<close>, outside any
  \<open>try\<close>: when the constructor throws, so does the function. \<open>x || d\<close> on a string
  takes \<open>d\<close> when \<open>x\<close> is empty.
\<close>

definition generateFallbackContent ::
    "url_api \<Rightarrow> jstring \<Rightarrow> jstring \<Rightarrow> jstring \<Rightarrow> error + ArticleContent" where
  "generateFallbackContent U url title summary =
     (case url_hostname U url of
        None \<Rightarrow> Inl (TypeError (js ''Invalid URL''))
      | Some hostname \<Rightarrow>
          let siteName = getSiteName hostname
          in if str_includes hostname (js ''b23.tv'') \<or> str_includes hostname (js ''bilibili.com'') then
               Inr \<lparr>art_title = (if title = [] then js ''B'' @ [0x7AD9, 0x70ED, 0x95E8, 0x89C6, 0x9891] else title),
                    art_content = video_fallback siteName summary url hostname,
                    art_summary = (if summary = [] then [0x70B9, 0x51FB, 0x94FE, 0x63A5, 0x89C2, 0x770B] @ js ''B'' @ [0x7AD9, 0x89C6, 0x9891, 0x5185, 0x5BB9, 0x3002] else summary)\<rparr>
             else
               Inr \<lparr>art_title = (if title = [] then [0x70ED, 0x95E8, 0x5185, 0x5BB9] else title),
                    art_content = generic_fallback siteName summary url hostname,
                    art_summary = (if summary = [] then [0x7531, 0x4E8E, 0x8BBF, 0x95EE, 0x9650, 0x5236, 0xFF0C, 0x8BF7, 0x70B9, 0x51FB, 0x94FE, 0x63A5, 0x67E5, 0x770B, 0x539F, 0x6587, 0x5185, 0x5BB9, 0x3002] else summary)\<rparr>)"

section \<open>Hot lists\<close>

text \<open>
  \<open>hot\<close> is \<open>string | number\<close>. Source ids are JavaScript numbers; they are modelled as
  integers, printed in decimal as \<open>Number.prototype.toString\<close> prints an integer below
  \<open>10^21\<close>. A response body is taken to have the declared shape \<open>HotNewsResponse\<close>.
\<close>

datatype hot = HotText jstring | HotNumber int

record HotNewsItem =
  item_index :: int
  item_title :: jstring
  item_url :: jstring
  item_hot :: "hot option"

record HotNewsResponse =
  resp_success :: bool
  resp_message :: "jstring option"
  resp_name :: jstring
  resp_subtitle :: jstring
  resp_update_time :: jstring
  resp_data :: "HotNewsItem list"

text \<open>The object built by \<open>fetchSingleSource\<close> and by \<open>getFallbackSiteData\<close>.\<close>

record SiteData =
  site_name :: jstring
  site_subtitle :: jstring
  site_update_time :: jstring
  site_data :: "HotNewsItem list"

definition BASE_API_URL :: jstring where
  "BASE_API_URL = js ''https://api.vvhan.com/api/hotlist''"

fun show_nat :: "nat \<Rightarrow> jstring" where
  "show_nat n = (if n < 10 then [48 + n] else show_nat (n div 10) @ [48 + n mod 10])"

definition show_int :: "int \<Rightarrow> jstring" where
  "show_int i = (if i < 0 then 45 # show_nat (nat (- i)) else show_nat (nat i))"

text \<open>
  The outcome of one \<open>axios.get\<close> to the upstream: the promise is rejected with a
  message (time-out after 6000 ms, a status outside 2xx, a network failure), or it is
  fulfilled with a body.
\<close>

datatype upstream = Rejected jstring | Replied HotNewsResponse

definition fetchSingleSource :: "(jstring \<Rightarrow> upstream) \<Rightarrow> int \<Rightarrow> error + SiteData" where
  "fetchSingleSource get sourceId =
     (case HOT_NEWS_SOURCES sourceId of
        None \<Rightarrow> Inl (Error (js ''Source ID '' @ show_int sourceId @ js '' does not exist''))
      | Some source \<Rightarrow>
          (case get (BASE_API_URL @ js ''/'' @ name source) of
             Rejected message \<Rightarrow> Inl (Error message)
           | Replied news \<Rightarrow>
               if \<not> resp_success news then
                 Inl (Error (js ''API returned error: '' @
                   (case resp_message news of None \<Rightarrow> js ''undefined'' | Some m \<Rightarrow> m)))
               else
                 Inr \<lparr>site_name = resp_name news, site_subtitle = resp_subtitle news,
                      site_update_time = resp_update_time news, site_data = resp_data news\<rparr>))"

text \<open>\<open>String.prototype.split\<close> on one character, and \<open>replace\<close> of its first occurrence.\<close>

definition split_on :: "nat \<Rightarrow> jstring \<Rightarrow> jstring list" where
  "split_on c s = split_where (\<lambda>x. x = c) s"

fun remove_first :: "nat \<Rightarrow> jstring \<Rightarrow> jstring" where
  "remove_first c [] = []"
| "remove_first c (x # xs) = (if x = c then xs else x # remove_first c xs)"

text \<open>
  \<open>getFallbackSiteData\<close>; \<open>null\<close> is \<open>None\<close>. The first argument is the text of
  \<open>new Date().toLocaleString('zh-CN')\<close>.
\<close>

definition getFallbackSiteData :: "jstring \<Rightarrow> int \<Rightarrow> SiteData option" where
  "getFallbackSiteData localeTime sourceId =
     (case HOT_NEWS_SOURCES sourceId of
        None \<Rightarrow> None
      | Some source \<Rightarrow>
          let siteName =
                (case split_on 40 (description source) of
                   p # q # ps \<Rightarrow> if remove_first 41 q = [] then description source else remove_first 41 q
                 | _ \<Rightarrow> description source)
          in Some \<lparr>site_name = siteName,
                    site_subtitle = [0x70ED, 0x699C],
                    site_update_time = localeTime,
                    site_data =
                      [\<lparr>item_index = 1,
                        item_title = [0x6570, 0x636E, 0x52A0, 0x8F7D, 0x4E2D, 0xFF0C, 0x8BF7, 0x7A0D, 0x5019] @ js ''...'',
                        item_url = js ''#'', item_hot = Some (HotNumber 0)\<rparr>,
                       \<lparr>item_index = 2,
                        item_title = [0x7F51, 0x7EDC, 0x8FDE, 0x63A5, 0x7F13, 0x6162, 0xFF0C, 0x6B63, 0x5728, 0x91CD, 0x8BD5],
                        item_url = js ''#'', item_hot = Some (HotNumber 0)\<rparr>]\<rparr>)"

text \<open>
  What one call of \<open>getHotNews\<close> meets: the clock at the cache lookup and at the cache
  store, the upstream's answer to the \<open>i\<close>-th request, the promise that settles
  \<open>Promise.race\<close> first, and the text of the clock when the \<open>i\<close>-th entry is built.
  \<open>OtherError\<close> stands for an exception in the \<open>try\<close> block that is not the time-out.
\<close>

datatype race_outcome = AllSettled | TimerFired | OtherError

record hot_env =
  now_at_get :: int
  now_at_set :: int
  net :: "nat \<Rightarrow> jstring \<Rightarrow> upstream"
  race :: race_outcome
  locale_time :: "nat \<Rightarrow> jstring"

definition cacheKey :: "int list \<Rightarrow> jstring" where
  "cacheKey sources = js ''hotnews_'' @ join (js ''_'') (map show_int sources)"

text \<open>
  One entry of the result: the value of a fulfilled request, the fallback for the
  requested id otherwise.
\<close>

definition settled_entry :: "jstring \<Rightarrow> int \<Rightarrow> error + SiteData \<Rightarrow> SiteData option" where
  "settled_entry localeTime sourceId result =
     (case result of
        Inr v \<Rightarrow> Some v
      | Inl e \<Rightarrow> getFallbackSiteData localeTime sourceId)"

text \<open>
  \<open>getHotNews\<close>. The timer of \<open>timeoutSeconds\<close> enters only through the outcome of the
  race. After the time-out the code awaits \<open>Promise.allSettled\<close> once more, so both
  loops read the settled requests. The result of the \<open>OtherError\<close> branch is not
  stored.
\<close>

definition getHotNews ::
    "hot_env \<Rightarrow> int list \<Rightarrow> SiteData option list simple_cache
      \<Rightarrow> SiteData option list \<times> SiteData option list simple_cache" where
  "getHotNews e sources cache =
     (case cache_get (now_at_get e) (cacheKey sources) cache of
        (Some cached, cache1) \<Rightarrow> (cached, cache1)
      | (None, cache1) \<Rightarrow>
          let requestPromises = map (\<lambda>i. fetchSingleSource (net e i) (sources ! i)) [0..<length sources];
              results = map (\<lambda>i. settled_entry (locale_time e i) (sources ! i) (requestPromises ! i))
                          [0..<length sources]
          in (case race e of
                AllSettled \<Rightarrow> (results, cache_set (now_at_set e) (cacheKey sources) results 5 cache1)
              | TimerFired \<Rightarrow> (results, cache_set (now_at_set e) (cacheKey sources) results 2 cache1)
              | OtherError \<Rightarrow>
                  (map (\<lambda>i. getFallbackSiteData (locale_time e i) (sources ! i)) [0..<length sources],
                   cache1)))"

text \<open>
  The entries an id can get, and the invariant of the cache: every stored list belongs
  to the ids of its key.
\<close>

definition entry_for :: "int \<Rightarrow> SiteData option \<Rightarrow> bool" where
  "entry_for sourceId r =
     (\<exists>get localeTime. r = settled_entry localeTime sourceId (fetchSingleSource get sourceId))"

definition aligned :: "int list \<Rightarrow> SiteData option list \<Rightarrow> bool" where
  "aligned sources rs =
     (length rs = length sources \<and> (\<forall>i < length sources. entry_for (sources ! i) (rs ! i)))"

definition cache_inv :: "SiteData option list simple_cache \<Rightarrow> bool" where
  "cache_inv cache =
     (\<forall>sources item. cache (cacheKey sources) = Some item \<longrightarrow> aligned sources (item_data item))"

text \<open>
  The cache states of a server: the cache is empty at the start, and it changes only
  through \<open>getHotNews\<close> and \<open>clearCache\<close>.
\<close>

inductive reachable :: "SiteData option list simple_cache \<Rightarrow> bool" where
  start: "reachable Map.empty"
| call: "reachable cache \<Longrightarrow> reachable (snd (getHotNews e sources cache))"
| clear: "reachable cache \<Longrightarrow> reachable (cache_clear cache)"

section \<open>Documents\<close>

text \<open>
  \<open>cheerio.load\<close> parses a page into a tree and \<open>$.html()\<close> prints the tree. The
  parser belongs to the library: the tree it builds is an argument of the functions
  below. Tag and attribute names are in lower case, as the parser delivers them. A tree
  holds elements, texts, comments and the document type.
\<close>

datatype node =
    Element jstring "(jstring \<times> jstring) list" "node list"
  | Text jstring
  | Comment jstring
  | Doctype jstring

fun tag_is :: "jstring \<Rightarrow> node \<Rightarrow> bool" where
  "tag_is t (Element t' as cs) = (t' = t)"
| "tag_is t (Text s) = False"
| "tag_is t (Comment s) = False"
| "tag_is t (Doctype d) = False"

fun attr :: "node \<Rightarrow> jstring \<Rightarrow> jstring option" where
  "attr (Element t as cs) a = map_of as a"
| "attr (Text s) a = None"
| "attr (Comment s) a = None"
| "attr (Doctype d) a = None"

fun set_attr :: "jstring \<Rightarrow> jstring \<Rightarrow> (jstring \<times> jstring) list \<Rightarrow> (jstring \<times> jstring) list" where
  "set_attr a v [] = [(a, v)]"
| "set_attr a v ((b, w) # as) = (if b = a then (b, v) # as else (b, w) # set_attr a v as)"

text \<open>
  The class selector \<open>.c\<close> (the selector library splits the attribute at \<open>\s\<close>) and
  the attribute selector \<open>[a*="v"]\<close>.
\<close>

definition has_class :: "jstring \<Rightarrow> node \<Rightarrow> bool" where
  "has_class c n =
     (case attr n (js ''class'') of
        None \<Rightarrow> False
      | Some v \<Rightarrow> c \<noteq> [] \<and> c \<in> set (split_where is_space v))"

definition attr_contains :: "jstring \<Rightarrow> jstring \<Rightarrow> node \<Rightarrow> bool" where
  "attr_contains a v n = (case attr n a of None \<Rightarrow> False | Some w \<Rightarrow> str_includes w v)"

text \<open>\<open>.ad, .advertisement, [class*="ad-"], [id*="ad-"]\<close>\<close>

definition is_ad :: "node \<Rightarrow> bool" where
  "is_ad n =
     (has_class (js ''ad'') n \<or> has_class (js ''advertisement'') n \<or>
      attr_contains (js ''class'') (js ''ad-'') n \<or> attr_contains (js ''id'') (js ''ad-'') n)"

text \<open>\<open>$(selector).remove()\<close>: every matching element leaves the tree, with its subtree.\<close>

fun remove_in :: "(node \<Rightarrow> bool) \<Rightarrow> node \<Rightarrow> node" where
  "remove_in P (Element t as cs) = Element t as (map (remove_in P) (filter (\<lambda>c. \<not> P c) cs))"
| "remove_in P (Text s) = Text s"
| "remove_in P (Comment s) = Comment s"
| "remove_in P (Doctype d) = Doctype d"

definition remove_sel :: "(node \<Rightarrow> bool) \<Rightarrow> node list \<Rightarrow> node list" where
  "remove_sel P doc = map (remove_in P) (filter (\<lambda>n. \<not> P n) doc)"

text \<open>\<open>$(selector).each(...)\<close> with a function that rewrites the attributes of an element.\<close>

fun each_element :: "(jstring \<Rightarrow> (jstring \<times> jstring) list \<Rightarrow> (jstring \<times> jstring) list) \<Rightarrow> node \<Rightarrow> node" where
  "each_element f (Element t as cs) = Element t (f t as) (map (each_element f) cs)"
| "each_element f (Text s) = Text s"
| "each_element f (Comment s) = Comment s"
| "each_element f (Doctype d) = Doctype d"

text \<open>The body of \<open>$('img').each\<close>.\<close>

definition fix_img :: "url_api \<Rightarrow> jstring \<Rightarrow> jstring \<Rightarrow> (jstring \<times> jstring) list \<Rightarrow> (jstring \<times> jstring) list" where
  "fix_img U originalUrl t as =
     (if t = js ''img'' then
        (case map_of as (js ''src'') of
           None \<Rightarrow> as
         | Some src \<Rightarrow>
             if src \<noteq> [] \<and> \<not> startsWith src (js ''http'') \<and> \<not> startsWith src (js ''data:'') then
               (case url_resolve U src originalUrl of
                  None \<Rightarrow> as
                | Some absoluteUrl \<Rightarrow> set_attr (js ''src'') absoluteUrl as)
             else as)
      else as)"

text \<open>
  The body of \<open>$('link[rel="stylesheet"]').each\<close>. The selector library compares the
  value of \<open>rel\<close> without regard to case in an HTML document.
\<close>

definition fix_link :: "url_api \<Rightarrow> jstring \<Rightarrow> jstring \<Rightarrow> (jstring \<times> jstring) list \<Rightarrow> (jstring \<times> jstring) list" where
  "fix_link U originalUrl t as =
     (if t = js ''link'' \<and> map_option (map fold_case) (map_of as (js ''rel'')) = Some (js ''stylesheet'') then
        (case map_of as (js ''href'') of
           None \<Rightarrow> as
         | Some href \<Rightarrow>
             if href \<noteq> [] \<and> \<not> startsWith href (js ''http'') then
               (case url_resolve U href originalUrl of
                  None \<Rightarrow> as
                | Some absoluteUrl \<Rightarrow> set_attr (js ''href'') absoluteUrl as)
             else as)
      else as)"

text \<open>\<open>$(selector).append(nodes)\<close> for a tag selector.\<close>

fun append_to :: "jstring \<Rightarrow> node list \<Rightarrow> node \<Rightarrow> node" where
  "append_to t new (Element t' as cs) =
     Element t' as (map (append_to t new) cs @ (if t' = t then new else []))"
| "append_to t new (Text s) = Text s"
| "append_to t new (Comment s) = Comment s"
| "append_to t new (Doctype d) = Doctype d"

text \<open>The nodes of the markup appended to \<open>head\<close>: a viewport \<open>meta\<close> and a \<open>style\<close>.\<close>

definition mobile_css :: jstring where
  \<open>mobile_css =
     join nl
       [[],
        js ''          body { '',
        js ''            font-size: 16px !important; '',
        js ''            line-height: 1.6 !important;'',
        js ''            padding: 10px !important;'',
        js ''            margin: 0 !important;'',
        js ''            word-wrap: break-word !important;'',
        js ''          }'',
        js ''          img { '',
        js ''            max-width: 100% !important; '',
        js ''            height: auto !important; '',
        js ''            display: block !important;'',
        js ''            margin: 10px 0 !important;'',
        js ''          }'',
        js ''          .sidebar, .ads, .advertisement, [class*="sidebar"], [class*="nav"] {'',
        js ''            display: none !important;'',
        js ''          }'',
        js ''          p, div, article { '',
        js ''            max-width: 100% !important;'',
        js ''            overflow-wrap: break-word !important;'',
        js ''          }'',
        js ''        '']\<close>

definition head_additions :: "node list" where
  \<open>head_additions =
     [Text (nl @ js ''        ''),
      Element (js ''meta'')
        [(js ''name'', js ''viewport''),
         (js ''content'', js ''width=device-width, initial-scale=1.0, maximum-scale=1.0, user-scalable=no'')] [],
      Text (nl @ js ''        ''),
      Element (js ''style'') [] [Text mobile_css],
      Text (nl @ js ''      '')]\<close>

text \<open>The steps of \<open>processHtmlForWebview\<close> on the tree, in source order.\<close>

definition rewrite_document :: "url_api \<Rightarrow> jstring \<Rightarrow> node list \<Rightarrow> node list" where
  "rewrite_document U originalUrl doc =
     (let d1 = remove_sel (tag_is (js ''script'')) doc;
          d2 = remove_sel (tag_is (js ''iframe'')) d1;
          d3 = remove_sel is_ad d2;
          d4 = map (each_element (fix_img U originalUrl)) d3;
          d5 = map (each_element (fix_link U originalUrl)) d4
      in map (append_to (js ''head'') head_additions) d5)"

text \<open>
  The serializer of the library: attribute values escape \<open>&\<close> and the double quote, text
  escapes \<open>&\<close>, \<open><\<close> and \<open>>\<close> except inside raw text elements, void elements have
  no end tag, and the document type is printed with its name.
\<close>

definition void_elements :: "jstring list" where
  "void_elements =
     [js ''area'', js ''base'', js ''br'', js ''col'', js ''embed'', js ''hr'', js ''img'',
      js ''input'', js ''link'', js ''meta'', js ''param'', js ''source'', js ''track'', js ''wbr'']"

definition raw_text_elements :: "jstring list" where
  "raw_text_elements =
     [js ''style'', js ''script'', js ''xmp'', js ''iframe'', js ''noembed'', js ''noframes'',
      js ''plaintext'', js ''noscript'']"

definition escape_attr :: "jstring \<Rightarrow> jstring" where
  "escape_attr s =
     concat (map (\<lambda>c. if c = 38 then js ''&amp;'' else if c = 34 then js ''&quot;''
                        else if c = 0xA0 then js ''&nbsp;'' else [c]) s)"

definition escape_text :: "jstring \<Rightarrow> jstring" where
  "escape_text s =
     concat (map (\<lambda>c. if c = 38 then js ''&amp;'' else if c = 60 then js ''&lt;''
                        else if c = 62 then js ''&gt;'' else if c = 0xA0 then js ''&nbsp;''
                        else [c]) s)"

definition render_attr :: "jstring \<times> jstring \<Rightarrow> jstring" where
  \<open>render_attr a = js '' '' @ fst a @ js ''="'' @ escape_attr (snd a) @ js ''"''\<close>

fun render_node :: "bool \<Rightarrow> node \<Rightarrow> jstring" where
  "render_node raw (Element t as cs) =
     js ''<'' @ t @ concat (map render_attr as) @ js ''>'' @
     (if t \<in> set void_elements then []
      else concat (map (render_node (t \<in> set raw_text_elements)) cs) @ js ''</'' @ t @ js ''>'')"
| "render_node raw (Text s) = (if raw then s else escape_text s)"
| "render_node raw (Comment s) = js ''<!--'' @ s @ js ''-->''"
| "render_node raw (Doctype d) = js ''<!DOCTYPE '' @ d @ js ''>''"

definition render :: "node list \<Rightarrow> jstring" where
  "render doc = concat (map (render_node False) doc)"

text \<open>
  \<open>processHtmlForWebview\<close>. \<open>loaded\<close> is the tree \<open>cheerio.load(html)\<close> returns, \<open>None\<close>
  when it throws. Every exception of the body is caught, and the original text is
  returned.
\<close>

definition processHtmlForWebview :: "url_api \<Rightarrow> node list option \<Rightarrow> jstring \<Rightarrow> jstring \<Rightarrow> jstring" where
  "processHtmlForWebview U loaded html originalUrl =
     (case loaded of
        None \<Rightarrow> html
      | Some doc \<Rightarrow>
          (case url_hostname U originalUrl of
             None \<Rightarrow> html
           | Some h \<Rightarrow> render (rewrite_document U originalUrl doc)))"

definition generateErrorHtml :: "jstring \<Rightarrow> jstring \<Rightarrow> jstring" where
  \<open>generateErrorHtml url errorMessage =
     join nl
       [[],
        js ''      <!DOCTYPE html>'',
        js ''      <html>'',
        js ''      <head>'',
        js ''        <meta charset="utf-8">'',
        js ''        <meta name="viewport" content="width=device-width, initial-scale=1.0">'',
        js ''        <title>'' @ [0x9875, 0x9762, 0x52A0, 0x8F7D, 0x5931, 0x8D25] @ js ''</title>'',
        js ''        <style>'',
        js ''          body {'',
        js ''            font-family: -apple-system, BlinkMacSystemFont, 'Segoe UI', Arial, sans-serif;'',
        js ''            padding: 20px;'',
        js ''            background: #f5f5f5;'',
        js ''            color: #333;'',
        js ''            line-height: 1.6;'',
        js ''          }'',
        js ''          .error-container {'',
        js ''            background: white;'',
        js ''            border-radius: 8px;'',
        js ''            padding: 30px;'',
        js ''            text-align: center;'',
        js ''            box-shadow: 0 2px 10px rgba(0,0,0,0.1);'',
        js ''          }'',
        js ''          .error-icon {'',
        js ''            font-size: 48px;'',
        js ''            margin-bottom: 20px;'',
        js ''          }'',
        js ''          .error-title {'',
        js ''            font-size: 24px;'',
        js ''            font-weight: bold;'',
        js ''            margin-bottom: 10px;'',
        js ''            color: #d73a49;'',
        js ''          }'',
        js ''          .error-message {'',
        js ''            color: #666;'',
        js ''            margin-bottom: 20px;'',
        js ''          }'',
        js ''          .error-url {'',
        js ''            background: #f6f8fa;'',
        js ''            padding: 10px;'',
        js ''            border-radius: 4px;'',
        js ''            word-break: break-all;'',
        js ''            font-family: monospace;'',
        js ''            font-size: 14px;'',
        js ''            margin-bottom: 20px;'',
        js ''          }'',
        js ''          .retry-btn {'',
        js ''            background: #0366d6;'',
        js ''            color: white;'',
        js ''            border: none;'',
        js ''            padding: 10px 20px;'',
        js ''            border-radius: 4px;'',
        js ''            cursor: pointer;'',
        js ''            font-size: 16px;'',
        js ''          }'',
        js ''        </style>'',
        js ''      </head>'',
        js ''      <body>'',
        js ''        <div class="error-container">'',
        js ''          <div class="error-icon">'' @ [0x26A0, 0xFE0F] @ js ''</div>'',
        js ''          <div class="error-title">'' @ [0x9875, 0x9762, 0x52A0, 0x8F7D, 0x5931, 0x8D25] @ js ''</div>'',
        js ''          <div class="error-message">'' @ [0x65E0, 0x6CD5, 0x52A0, 0x8F7D, 0x9875, 0x9762, 0x5185, 0x5BB9, 0xFF0C, 0x53EF, 0x80FD, 0x662F, 0x7F51, 0x7EDC, 0x8FDE, 0x63A5, 0x95EE, 0x9898, 0x6216, 0x7F51, 0x7AD9, 0x8BBF, 0x95EE, 0x9650, 0x5236, 0x3002] @ js ''</div>'',
        js ''          <div class="error-url">'' @ url @ js ''</div>'',
        js ''          <div class="error-message">'' @ [0x9519, 0x8BEF, 0x8BE6, 0x60C5, 0xFF1A] @ errorMessage @ js ''</div>'',
        js ''          <button class="retry-btn" onclick="location.reload()">'' @ [0x91CD, 0x8BD5] @ js ''</button>'',
        js ''        </div>'',
        js ''      </body>'',
        js ''      </html>'',
        js ''    '']\<close>

text \<open>
  \<open>fetchArticleHtml\<close>. The outcome of \<open>axios.get(url)\<close> is an argument: the body of the
  response, or the message of the exception.
\<close>

datatype http_result = HttpOk jstring | HttpFail jstring

definition fetchArticleHtml :: "url_api \<Rightarrow> http_result \<Rightarrow> node list option \<Rightarrow> jstring \<Rightarrow> jstring" where
  "fetchArticleHtml U response loaded url =
     (case response of
        HttpFail message \<Rightarrow> generateErrorHtml url message
      | HttpOk html \<Rightarrow> processHtmlForWebview U loaded html url)"

section \<open>Notions used in the statements\<close>


text \<open>The \<open>src\<close> attributes of the \<open>img\<close> elements of a tree, in document order.\<close>

fun img_srcs :: "node \<Rightarrow> jstring list" where
  "img_srcs (Element t as cs) =
     (if t = js ''img'' then (case map_of as (js ''src'') of None \<Rightarrow> [] | Some s \<Rightarrow> [s]) else []) @
     concat (map img_srcs cs)"
| "img_srcs (Text s) = []"
| "img_srcs (Comment s) = []"
| "img_srcs (Doctype d) = []"

text \<open>What the rewriter does to one \<open>src\<close>.\<close>

definition rewritten_src :: "url_api \<Rightarrow> jstring \<Rightarrow> jstring \<Rightarrow> jstring" where
  "rewritten_src U originalUrl src =
     (if src \<noteq> [] \<and> \<not> startsWith src (js ''http'') \<and> \<not> startsWith src (js ''data:'') then
        (case url_resolve U src originalUrl of None \<Rightarrow> src | Some absoluteUrl \<Rightarrow> absoluteUrl)
      else src)"

text \<open>
  A text contains the start tag of an element: \<open><\<close>, the tag name in any case, and
  then white space, \<open>/\<close> or \<open>>\<close>.
\<close>

definition html_space :: "nat \<Rightarrow> bool" where
  "html_space c = (c = 9 \<or> c = 10 \<or> c = 12 \<or> c = 13 \<or> c = 32)"

definition tag_open_at :: "jstring \<Rightarrow> jstring \<Rightarrow> bool" where
  "tag_open_at t s =
     (case lit_ci (js ''<'' @ t) s of
        None \<Rightarrow> False
      | Some r \<Rightarrow> (case r of [] \<Rightarrow> False | c # cs \<Rightarrow> c = 62 \<or> c = 47 \<or> html_space c))"

fun has_tag :: "jstring \<Rightarrow> jstring \<Rightarrow> bool" where
  "has_tag t [] = False"
| "has_tag t (c # cs) = (tag_open_at t (c # cs) \<or> has_tag t cs)"

text \<open>The elements that \<open>processHtmlForWebview\<close> takes out of the tree.\<close>

definition removed :: "node \<Rightarrow> bool" where
  "removed n = (tag_is (js ''script'') n \<or> tag_is (js ''iframe'') n \<or> is_ad n)"

text \<open>
  A tree is quiet when, outside the elements that are taken out, the start of a
  \<open>script\<close> tag occurs in no tag name, in no attribute as it is printed after the URLs
  are made absolute, in no comment, in no document type, and in no raw text (the
  content of \<open>style\<close>, \<open>noscript\<close> and the like, which is printed as it is and which
  the parser delivers as text). The text nodes outside raw text elements are free.
\<close>

fun is_text :: "node \<Rightarrow> bool" where
  "is_text (Text s) = True"
| "is_text (Element t as cs) = False"
| "is_text (Comment s) = False"
| "is_text (Doctype d) = False"

fun quiet :: "url_api \<Rightarrow> jstring \<Rightarrow> node \<Rightarrow> bool" where
  "quiet U url (Element t as cs) =
     (removed (Element t as cs) \<or>
      (\<not> has_tag (js ''script'') (js ''<'' @ t @ js ''>'') \<and>
       list_all (\<lambda>a. \<not> has_tag (js ''script'') (render_attr a))
         (fix_link U url t (fix_img U url t as)) \<and>
       (t \<in> set void_elements \<or>
        (if t \<in> set raw_text_elements
         then list_all is_text cs \<and>
              \<not> has_tag (js ''script'') (concat (map (render_node True) cs))
         else list_all (quiet U url) cs))))"
| "quiet U url (Text s) = True"
| "quiet U url (Comment s) = (\<not> has_tag (js ''script'') (render_node False (Comment s)))"
| "quiet U url (Doctype d) = (\<not> has_tag (js ''script'') (render_node False (Doctype d)))"

text \<open>The content of a raw text element is text, as the parser delivers it.\<close>

fun raw_is_text :: "node \<Rightarrow> bool" where
  "raw_is_text (Element t as cs) =
     ((t \<in> set raw_text_elements \<longrightarrow> list_all is_text cs) \<and> list_all raw_is_text cs)"
| "raw_is_text (Text s) = True"
| "raw_is_text (Comment s) = True"
| "raw_is_text (Doctype d) = True"

text \<open>
  Notions of the proofs. The rewriter in one pass over the tree; the characters that
  end a tag name or begin a tag, and a tag name without them; a text that ends inside
  the start of a tag; a text that holds no start of the tag, whole or cut.
\<close>

fun rewritten :: "url_api \<Rightarrow> jstring \<Rightarrow> node \<Rightarrow> node" where
  "rewritten U url (Element t as cs) =
     Element t (fix_link U url t (fix_img U url t as))
       (map (rewritten U url) (filter (\<lambda>c. \<not> removed c) cs) @
        (if t = js ''head'' then head_additions else []))"
| "rewritten U url (Text s) = Text s"
| "rewritten U url (Comment s) = Comment s"
| "rewritten U url (Doctype d) = Doctype d"

definition sep_char :: "nat \<Rightarrow> bool" where
  "sep_char c = (c = 60 \<or> c = 62 \<or> c = 47 \<or> html_space c)"

definition wordy :: "jstring \<Rightarrow> bool" where
  "wordy t = list_all (\<lambda>c. \<not> sep_char (fold_case c)) t"

fun open_ended :: "jstring \<Rightarrow> jstring \<Rightarrow> bool" where
  "open_ended t [] = False"
| "open_ended t (c # cs) = (lit_ci (c # cs) (js ''<'' @ t) \<noteq> None \<or> open_ended t cs)"

definition closed :: "jstring \<Rightarrow> jstring \<Rightarrow> bool" where
  "closed t s = (\<not> has_tag t s \<and> \<not> open_ended t s)"

text \<open>Characters that begin no match of a pattern of \<open>cleanHtmlForRichText\<close>.\<close>

definition plain :: "nat \<Rightarrow> bool" where
  "plain c = (c \<noteq> 60 \<and> fold_case c \<noteq> 60 \<and> \<not> is_space c)"

section \<open>Examples\<close>

definition example_env :: hot_env where
  "example_env =
     \<lparr>now_at_get = 1000, now_at_set = 1500,
      net = (\<lambda>i u. if i = 0
               then Replied \<lparr>resp_success = True, resp_message = None, resp_name = js ''zhihuHot'',
                      resp_subtitle = js ''hot'', resp_update_time = js ''2024-01-01 00:00:00'',
                      resp_data = [\<lparr>item_index = 1, item_title = js ''t'', item_url = js ''https://ex.com/1'',
                                    item_hot = Some (HotText (js ''1w''))\<rparr>]\<rparr>
               else Rejected (js ''timeout of 6000ms exceeded'')),
      race = AllSettled,
      locale_time = (\<lambda>i. js ''2024/1/1 00:00:00'')\<rparr>"

text \<open>
  The tree the parser builds for the fragment \<open><img src="...">\<close>: it supplies \<open>html\<close>,
  \<open>head\<close> and \<open>body\<close>. Then a page with two \<open>script\<close> elements and a text that
  spells a \<open>script\<close> element, and its tree; and a page without \<open>script\<close> elements
  whose \<open>noscript\<close> element holds the text of one, and its tree.
\<close>

definition img_document :: "jstring \<Rightarrow> node list" where
  "img_document src =
     [Element (js ''html'') []
        [Element (js ''head'') [] [],
         Element (js ''body'') [] [Element (js ''img'') [(js ''src'', src)] []]]]"





text \<open>Reading a decimal numeral back, the inverse of \<open>show_nat\<close> and \<open>show_int\<close>.\<close>

definition read_nat :: "jstring \<Rightarrow> nat" where
  "read_nat s = foldl (\<lambda>a d. 10 * a + (d - 48)) 0 s"

definition read_int :: "jstring \<Rightarrow> int" where
  "read_int s = (if hd s = 45 then - int (read_nat (tl s)) else int (read_nat s))"

section \<open>Properties of the string functions\<close>

lemma js_append: "js (a @ b) = js a @ js b"
  by (simp add: js_def)

lemma join_Cons: "join sep (x # xs) = x @ (if xs = [] then [] else sep @ join sep xs)"
  by (cases xs) simp_all

lemma startsWith_append: "startsWith (p @ b) p"
  by (induction p) auto

lemma startsWith_extend: "startsWith s p \<Longrightarrow> startsWith (s @ x) p"
  by (induction s p rule: startsWith.induct) auto

lemma str_includes_prefix: "str_includes (p @ b) p"
  by (cases "p @ b") (auto simp: startsWith_append simp del: startsWith.simps
      dest: arg_cong [where f = "\<lambda>s. startsWith s p"])

lemma str_includes_append: "str_includes (a @ p @ b) p"
  by (induction a) (auto simp: str_includes_prefix)

lemma str_includes_left: "str_includes s p \<Longrightarrow> str_includes (x @ s) p"
  by (induction x) auto

lemma str_includes_right: "str_includes s p \<Longrightarrow> str_includes (s @ x) p"
proof (induction s)
  case Nil
  then show ?case by (cases x) auto
next
  case (Cons c cs)
  then show ?case using startsWith_extend [of "c # cs" p x] by auto
qed

lemma str_includes_join: "l \<in> set ls \<Longrightarrow> str_includes l p \<Longrightarrow> str_includes (join sep ls) p"
proof (induction sep ls rule: join.induct)
  case (3 sep x y ys)
  then show ?case
    by (auto intro: str_includes_right str_includes_left)
qed auto

lemma str_includes_join_ex:
  "list_ex (\<lambda>l. str_includes l p) ls \<Longrightarrow> str_includes (join sep ls) p"
  by (auto simp: list_ex_iff intro: str_includes_join)

lemma lit_ci_append: "lit_ci p s = Some r \<Longrightarrow> lit_ci p (s @ x) = Some (r @ x)"
  by (induction p s rule: lit_ci.induct) (auto split: if_splits)

lemma tag_open_at_append: "tag_open_at t s \<Longrightarrow> tag_open_at t (s @ x)"
  by (auto simp: tag_open_at_def lit_ci_append split: option.splits list.splits)

lemma has_tag_append_right: "has_tag t s \<Longrightarrow> has_tag t (s @ x)"
proof (induction s)
  case (Cons c cs)
  then show ?case using tag_open_at_append [of t "c # cs" x] by auto
qed simp

lemma has_tag_append_left: "has_tag t s \<Longrightarrow> has_tag t (x @ s)"
  by (induction x) auto


section \<open>Properties of \<open>cleanHtmlForRichText\<close>\<close>

lemmas clean_defs =
  cleanHtmlForRichText_def Let_def js_def remove_unsupported_def unsupportedTags_def
  simplify_markup_def tag_block_def empty_container_def img_tag_def unsupported_attr_def
  open_container_def close_container_def nested_p_open_def nested_p_close_def empty_p_def
  any_tag_def trim_def is_space_def fold_case_def skip_ws_def attr_names_def quoted_value_def

lemma length_no_content: "length no_content = 11"
  by (simp add: no_content_def js_def)

lemma length_content_loading: "length content_loading = 21"
  by (simp add: content_loading_def js_def)

text \<open>
  Every pattern consumes text where it matches, so the scan of \<open>replace_all\<close> always
  goes on after the match.
\<close>

lemma lit_length: "lit p s = Some r \<Longrightarrow> length s = length p + length r"
  by (induction p s rule: lit.induct) (auto split: if_splits)

lemma lit_ci_length: "lit_ci p s = Some r \<Longrightarrow> length s = length p + length r"
  by (induction p s rule: lit_ci.induct) (auto split: if_splits)

lemma lit_alt_length: "lit_alt ps s = Some r \<Longrightarrow> length r \<le> length s"
  by (induction ps) (auto split: option.splits dest!: lit_length)

lemma upto_length: "upto c s = Some (a, r) \<Longrightarrow> length r < length s"
  by (induction s arbitrary: a) (auto split: if_splits option.splits)

lemma skip_ws_length: "length (skip_ws s) \<le> length s"
  by (simp add: skip_ws_def length_dropWhile_le)

lemma after_first_ci_length: "after_first_ci p s = Some r \<Longrightarrow> length r \<le> length s"
  by (induction s) (auto split: option.splits dest!: lit_ci_length)

lemma quoted_value_length: "quoted_value s = Some r \<Longrightarrow> length r < length s"
  by (auto simp: quoted_value_def Option.bind_eq_Some_conv dest!: lit_length upto_length)

lemma first_attr_length:
  assumes "first_attr fs s = Some r"
    and "\<forall>f\<in>set fs. \<forall>t u. f t = Some u \<longrightarrow> length u \<le> length t"
  shows "length r < length s"
  using assms
proof (induction fs)
  case (Cons f fs)
  show ?case
  proof (cases "Option.bind (f s) quoted_value")
    case None
    with Cons.prems(1) have "first_attr fs s = Some r" by simp
    moreover from Cons.prems(2)
    have "\<forall>f\<in>set fs. \<forall>t u. f t = Some u \<longrightarrow> length u \<le> length t" by simp
    ultimately show ?thesis by (rule Cons.IH)
  next
    case (Some q)
    then obtain u where u: "f s = Some u" "quoted_value u = Some q"
      by (auto simp: Option.bind_eq_Some_conv)
    from Cons.prems(2) u(1) have "length u \<le> length s" by simp
    moreover from quoted_value_length [OF u(2)] have "length q < length u" .
    moreover from Some Cons.prems(1) have "r = q" by simp
    ultimately show ?thesis by simp
  qed
qed simp

lemma attr_names_length: "\<forall>f\<in>set attr_names. \<forall>t u. f t = Some u \<longrightarrow> length u \<le> length t"
  by (auto simp: attr_names_def dest!: lit_length intro: order_trans [OF length_dropWhile_le])

lemma tag_block_consumes: "tag_block tag s = Some (r, rest) \<Longrightarrow> length rest < length s"
  by (auto simp: tag_block_def Option.bind_eq_Some_conv
      dest!: lit_ci_length upto_length after_first_ci_length)

lemma empty_container_consumes: "empty_container s = Some (r, rest) \<Longrightarrow> length rest < length s"
proof -
  assume "empty_container s = Some (r, rest)"
  then obtain r1 a r2 where "lit_alt [js ''<div'', js ''<span''] s = Some r1"
    "upto 62 r1 = Some (a, r2)" "lit_alt [js ''</div>'', js ''</span>''] (skip_ws r2) = Some rest"
    by (auto simp: empty_container_def Option.bind_eq_Some_conv)
  then show ?thesis
    using lit_alt_length [of _ s r1] upto_length [of 62 r1 a r2] skip_ws_length [of r2]
      lit_alt_length [of _ "skip_ws r2" rest] by fastforce
qed


lemma img_tag_consumes: "img_tag s = Some (r, rest) \<Longrightarrow> length rest < length s"
  by (auto simp: img_tag_def Option.bind_eq_Some_conv dest!: lit_length upto_length)

lemma unsupported_attr_consumes: "unsupported_attr s = Some (r, rest) \<Longrightarrow> length rest < length s"
  by (auto simp: unsupported_attr_def split: list.splits if_splits
      dest!: first_attr_length [OF _ attr_names_length])

lemma open_container_consumes: "open_container s = Some (r, rest) \<Longrightarrow> length rest < length s"
proof -
  assume "open_container s = Some (r, rest)"
  then obtain r1 a where "lit_alt [js ''<div'', js ''<section'', js ''<article''] s = Some r1"
    "upto 62 r1 = Some (a, rest)"
    by (auto simp: open_container_def Option.bind_eq_Some_conv)
  then show ?thesis
    using lit_alt_length [of _ s r1] upto_length [of 62 r1 a rest] by fastforce
qed

lemma close_container_consumes: "close_container s = Some (r, rest) \<Longrightarrow> length rest < length s"
  by (auto simp: close_container_def Option.bind_eq_Some_conv js_def split: option.splits
      dest!: lit_length)

lemma nested_p_open_consumes: "nested_p_open s = Some (r, rest) \<Longrightarrow> length rest < length s"
proof -
  assume "nested_p_open s = Some (r, rest)"
  then obtain r1 a r2 r3 b where "lit (js ''<p'') s = Some r1" "upto 62 r1 = Some (a, r2)"
    "lit (js ''<p'') (skip_ws r2) = Some r3" "upto 62 r3 = Some (b, rest)"
    by (auto simp: nested_p_open_def Option.bind_eq_Some_conv)
  then show ?thesis
    using lit_length [of _ s r1] upto_length [of 62 r1 a r2] skip_ws_length [of r2]
      lit_length [of _ "skip_ws r2" r3] upto_length [of 62 r3 b rest] by fastforce
qed

lemma nested_p_close_consumes: "nested_p_close s = Some (r, rest) \<Longrightarrow> length rest < length s"
proof -
  assume "nested_p_close s = Some (r, rest)"
  then obtain r1 where "lit (js ''</p>'') s = Some r1" "lit (js ''</p>'') (skip_ws r1) = Some rest"
    by (auto simp: nested_p_close_def Option.bind_eq_Some_conv)
  then show ?thesis
    using lit_length [of "js ''</p>''" s r1] skip_ws_length [of r1]
      lit_length [of "js ''</p>''" "skip_ws r1" rest] by (simp add: js_def)
qed

lemma empty_p_consumes: "empty_p s = Some (r, rest) \<Longrightarrow> length rest < length s"
proof -
  assume "empty_p s = Some (r, rest)"
  then obtain r1 a r2 where "lit (js ''<p'') s = Some r1" "upto 62 r1 = Some (a, r2)"
    "lit (js ''</p>'') (skip_ws r2) = Some rest"
    by (auto simp: empty_p_def Option.bind_eq_Some_conv)
  then show ?thesis
    using lit_length [of _ s r1] upto_length [of 62 r1 a r2] skip_ws_length [of r2]
      lit_length [of _ "skip_ws r2" rest] by fastforce
qed

lemma any_tag_consumes: "any_tag s = Some (r, rest) \<Longrightarrow> length rest < length s"
  by (auto simp: any_tag_def Option.bind_eq_Some_conv dest!: lit_length upto_length)

lemma replace_all_step:
  assumes "\<And>r rest. m (c # cs) = Some (r, rest) \<Longrightarrow> length rest < length (c # cs)"
  shows "replace_all m (c # cs) =
    (case m (c # cs) of None \<Rightarrow> c # replace_all m cs | Some (r, rest) \<Rightarrow> r @ replace_all m rest)"
  using assms by (auto split: option.splits)

text \<open>A text in which no pattern can begin a match is left as it is.\<close>

lemma replace_all_id:
  "(\<And>c t. c \<in> set s \<Longrightarrow> m (c # t) = None) \<Longrightarrow> replace_all m s = s"
  by (induction s) auto

lemma replace_all_plain:
  assumes "\<And>c t. plain c \<Longrightarrow> m (c # t) = None" and "\<forall>c\<in>set s. plain c"
  shows "replace_all m s = s"
  using assms by (intro replace_all_id) auto

lemma tag_block_plain: "plain c \<Longrightarrow> tag_block tag (c # t) = None"
  by (simp add: tag_block_def js_def plain_def) (simp add: fold_case_def)

lemma remove_unsupported_plain:
  assumes "\<forall>c\<in>set s. plain c"
  shows "remove_unsupported s = s"
proof -
  have "fold (\<lambda>tag h. replace_all (tag_block tag) h) tags s = s" for tags
    by (induction tags)
       (simp_all add: replace_all_plain [where m = "tag_block tag" for tag] tag_block_plain assms)
  then show ?thesis by (simp add: remove_unsupported_def)
qed

lemma matchers_plain:
  assumes "plain c"
  shows "empty_container (c # t) = None" "img_tag (c # t) = None"
    "unsupported_attr (c # t) = None" "open_container (c # t) = None"
    "close_container (c # t) = None" "nested_p_open (c # t) = None"
    "nested_p_close (c # t) = None" "empty_p (c # t) = None" "any_tag (c # t) = None"
  using assms
  by (simp_all add: plain_def empty_container_def img_tag_def unsupported_attr_def
      open_container_def close_container_def nested_p_open_def nested_p_close_def
      empty_p_def any_tag_def js_def)

lemma simplify_markup_plain: "\<forall>c\<in>set s. plain c \<Longrightarrow> simplify_markup s = s"
  by (simp add: simplify_markup_def Let_def replace_all_plain matchers_plain)

lemma dropWhile_replicate_plain: "\<not> P x \<Longrightarrow> dropWhile P (replicate n x) = replicate n x"
  by (cases n) simp_all

lemma plain_a: "plain 97"
  by (simp add: plain_def fold_case_def is_space_def)

lemma trim_plain: "trim (replicate n 97) = replicate n 97"
  using plain_a by (simp add: trim_def plain_def dropWhile_replicate_plain)

text \<open>
  C9. \<open>cleanHtmlForRichText\<close> has no failure exit: it is a total function from strings
  to strings, built from \<open>replace\<close>, \<open>trim\<close>, \<open>substring\<close> and \<open>length\<close>, none of which
  throws on a string. On the empty string it returns the fixed "no content"
  placeholder, which is not the empty string; on every input the result is not empty.
\<close>

theorem cleanHtmlForRichText_empty:
  "cleanHtmlForRichText [] = no_content \<and> no_content \<noteq> [] \<and> cleanHtmlForRichText html \<noteq> []"
proof -
  have "no_content \<noteq> []" "content_loading \<noteq> []"
    using length_no_content length_content_loading by auto
  moreover have "c \<noteq> []" if "\<not> length (trim (replace_all any_tag c)) < 10" for c
    using that by (cases c) (simp_all add: trim_def)
  ultimately show ?thesis
    by (simp add: cleanHtmlForRichText_def Let_def js_def)
qed

text \<open>
  C4, as the code has it. The text is cut to 50,000 code units and the seven code units
  \<open>...</p>\<close> are appended: the result has at most 50,007 code units.
\<close>

theorem cleanHtmlForRichText_length_bound:
  "length (cleanHtmlForRichText html) \<le> 50007"
  by (simp add: cleanHtmlForRichText_def Let_def length_no_content length_content_loading js_def)

theorem cleanHtmlForRichText_length_bound_witness:
  "length (cleanHtmlForRichText (replicate 60000 97)) \<le> 50007"
  using cleanHtmlForRichText_length_bound [of "replicate 60000 97"] .

text \<open>
  C4 as stated fails: 50,001 letters \<open>a\<close> come back as 50,000 letters and the suffix,
  50,007 code units in all.
\<close>

theorem cleanHtmlForRichText_exceeds_ceiling:
  "length (cleanHtmlForRichText (replicate 50001 97)) = 50007 \<and>
   \<not> length (cleanHtmlForRichText (replicate 50001 97)) \<le> 50000"
  using plain_a
  by (simp add: cleanHtmlForRichText_def Let_def remove_unsupported_plain simplify_markup_plain
      replace_all_plain matchers_plain trim_plain js_def)

text \<open>
  C3 at a failing input. \<open>input\<close> is on the list of unsupported tags, and it is a void
  element: it has no end tag, so the pattern \<open><input[^>]*>.*?</input>\<close> never matches
  it. The paragraph and the \<open>input\<close> element come back unchanged.
\<close>

theorem cleanHtmlForRichText_keeps_input_tag:
  \<open>js ''input'' \<in> set unsupportedTags \<and>
   cleanHtmlForRichText (js ''<p>0123456789</p><input type="text">'') =
     js ''<p>0123456789</p><input type="text">'' \<and>
   has_tag (js ''input'') (cleanHtmlForRichText (js ''<p>0123456789</p><input type="text">''))\<close>
  by (simp add: clean_defs tag_open_at_def html_space_def)

section \<open>Properties of \<open>SimpleCache\<close>\<close>

text \<open>
  C5, as the code has it. After \<open>set(k, v, ttl)\<close> at time \<open>t0\<close> the entry expires at
  \<open>t0 + ttl * 60 * 1000\<close>; \<open>get(k)\<close> at time \<open>now\<close> returns \<open>v\<close> exactly when
  \<open>now \<le> expires\<close> (the test of the code is \<open>Date.now() > item.expires\<close>), and
  otherwise it returns nothing and the entry is deleted. A read inside the window
  leaves the cache as it is, so a second read inside the window returns \<open>v\<close> again.
\<close>

theorem cache_get_after_set:
  "fst (cache_get now k (cache_set t0 k v ttl c)) =
     (if now \<le> t0 + ttl * 60 * 1000 then Some v else None) \<and>
   (t0 + ttl * 60 * 1000 < now \<longrightarrow> snd (cache_get now k (cache_set t0 k v ttl c)) k = None) \<and>
   (now \<le> t0 + ttl * 60 * 1000 \<and> now' \<le> t0 + ttl * 60 * 1000 \<longrightarrow>
      fst (cache_get now' k (snd (cache_get now k (cache_set t0 k v ttl c)))) = Some v)"
  by (simp add: cache_get_def cache_set_def)

theorem cache_get_after_set_witness:
  "(1000 :: int) \<le> 0 + 5 * 60 * 1000 \<and> (2000 :: int) \<le> 0 + 5 * 60 * 1000 \<and>
   fst (cache_get 1000 (js ''k'') (cache_set 0 (js ''k'') (42 :: nat) 5 Map.empty)) = Some 42 \<and>
   fst (cache_get 2000 (js ''k'')
     (snd (cache_get 1000 (js ''k'') (cache_set 0 (js ''k'') (42 :: nat) 5 Map.empty)))) = Some 42 \<and>
   (0 :: int) + 5 * 60 * 1000 < 300001 \<and>
   fst (cache_get 300001 (js ''k'') (cache_set 0 (js ''k'') (42 :: nat) 5 Map.empty)) = None \<and>
   snd (cache_get 300001 (js ''k'') (cache_set 0 (js ''k'') (42 :: nat) 5 Map.empty)) (js ''k'') = None"
  using cache_get_after_set [of 1000 "js ''k''" 0 "42 :: nat" 5 Map.empty 2000]
    cache_get_after_set [of 300001 "js ''k''" 0 "42 :: nat" 5 Map.empty 300001]
  by simp

text \<open>
  C5 as stated fails at the instant of expiry: with \<open>now = expiresAt\<close> the condition
  \<open>now < expiresAt\<close> is false, and the value is returned.
\<close>

theorem cache_get_at_expiry:
  "fst (cache_get 300000 (js ''k'') (cache_set 0 (js ''k'') (42 :: nat) 5 Map.empty)) = Some 42 \<and>
   \<not> (300000 :: int) < 0 + 5 * 60 * 1000"
  by (simp add: cache_get_def cache_set_def)

section \<open>The cache key\<close>

text \<open>
  Two lists of ids with the same key are the same list: the decimal numerals can be
  read back, none contains the separator, and none is empty.
\<close>

declare show_nat.simps [simp del]

lemma read_show_nat: "read_nat (show_nat n) = n"
proof (induction n rule: show_nat.induct)
  case (1 n)
  show ?case
  proof (cases "n < 10")
    case True
    then show ?thesis by (subst show_nat.simps) (simp add: read_nat_def)
  next
    case False
    with 1 have "read_nat (show_nat (n div 10)) = n div 10" by simp
    with False show ?thesis by (subst show_nat.simps) (simp add: read_nat_def)
  qed
qed

lemma show_nat_digits: "c \<in> set (show_nat n) \<Longrightarrow> 48 \<le> c \<and> c \<le> 57"
proof (induction n rule: show_nat.induct)
  case (1 n)
  then show ?case
    by (subst (asm) (2) show_nat.simps) (auto split: if_splits)
qed

lemma show_nat_nonempty: "show_nat n \<noteq> []"
  by (subst show_nat.simps) simp

lemma show_nat_hd: "hd (show_nat n) \<noteq> 45"
  using show_nat_digits [of "hd (show_nat n)" n] show_nat_nonempty [of n] by auto

lemma read_show_int: "read_int (show_int i) = i"
  unfolding read_int_def show_int_def using show_nat_hd [of "nat i"]
  by (simp add: read_show_nat)

lemma show_int_inj: "show_int a = show_int b \<Longrightarrow> a = b"
  by (metis read_show_int)

lemma show_int_chars: "95 \<notin> set (show_int i)"
  using show_nat_digits [of 95] by (auto simp: show_int_def)

lemma show_int_nonempty: "show_int i \<noteq> []"
  by (simp add: show_int_def show_nat_nonempty)

lemma takeWhile_sep: "c \<notin> set x \<Longrightarrow> takeWhile (\<lambda>d. d \<noteq> c) (x @ c # a) = x"
  by (induction x) auto

lemma sep_free_append_eq:
  assumes "c \<notin> set x" "c \<notin> set y" "x @ c # a = y @ c # b"
  shows "x = y \<and> a = b"
proof -
  have "takeWhile (\<lambda>d. d \<noteq> c) (x @ c # a) = x"
    using assms(1) by (rule takeWhile_sep)
  moreover have "takeWhile (\<lambda>d. d \<noteq> c) (y @ c # b) = y"
    using assms(2) by (rule takeWhile_sep)
  ultimately have "x = y" using assms(3) by simp
  with assms(3) show ?thesis by simp
qed

lemma join_inj:
  assumes "\<forall>x\<in>set xs. x \<noteq> [] \<and> c \<notin> set x" "\<forall>y\<in>set ys. y \<noteq> [] \<and> c \<notin> set y"
    "join [c] xs = join [c] ys"
  shows "xs = ys"
  using assms
proof (induction xs arbitrary: ys)
  case Nil
  then show ?case by (cases ys) (auto simp: join_Cons)
next
  case (Cons x xs)
  show ?case
  proof (cases ys)
    case Nil
    with Cons.prems show ?thesis by (auto simp: join_Cons)
  next
    case (Cons y ys')
    from Cons.prems Cons have cx: "c \<notin> set x" and cy: "c \<notin> set y" by auto
    from Cons.prems(3) Cons
    have eq: "x @ (if xs = [] then [] else c # join [c] xs) =
              y @ (if ys' = [] then [] else c # join [c] ys')"
      by (auto simp: join_Cons split: if_splits)
    show ?thesis
    proof (cases "xs = []")
      case xs: True
      show ?thesis
      proof (cases "ys' = []")
        case True
        with xs eq Cons show ?thesis by simp
      next
        case False
        with xs eq have "x = y @ c # join [c] ys'" by simp
        with cx show ?thesis by auto
      qed
    next
      case xs: False
      show ?thesis
      proof (cases "ys' = []")
        case True
        with xs eq have "y = x @ c # join [c] xs" by simp
        with cy show ?thesis by auto
      next
        case False
        with xs eq have "x @ c # join [c] xs = y @ c # join [c] ys'" by simp
        from sep_free_append_eq [OF cx cy this]
        have "x = y" "join [c] xs = join [c] ys'" by auto
        moreover from Cons.prems \<open>ys = y # ys'\<close> have "xs = ys'"
          using Cons.IH [of ys'] calculation by auto
        ultimately show ?thesis using \<open>ys = y # ys'\<close> by simp
      qed
    qed
  qed
qed

lemma cacheKey_inj: "cacheKey a = cacheKey b \<Longrightarrow> a = b"
proof -
  assume "cacheKey a = cacheKey b"
  then have "join [95] (map show_int a) = join [95] (map show_int b)"
    by (simp add: cacheKey_def js_def)
  then have "map show_int a = map show_int b"
    by (intro join_inj [where c = 95]) (auto simp: show_int_chars show_int_nonempty)
  then show ?thesis
    using show_int_inj by (simp add: inj_map_eq_map [OF injI])
qed

section \<open>Properties of \<open>getHotNews\<close>\<close>

lemma entry_for_settled: "entry_for s (settled_entry t s (fetchSingleSource g s))"
  by (auto simp: entry_for_def)

lemma entry_for_fallback: "entry_for s (getFallbackSiteData t s)"
proof -
  have "getFallbackSiteData t s = settled_entry t s (fetchSingleSource (\<lambda>u. Rejected []) s)"
    by (simp add: settled_entry_def fetchSingleSource_def split: option.split)
  then show ?thesis unfolding entry_for_def by blast
qed

lemma entry_for_unknown: "HOT_NEWS_SOURCES s = None \<Longrightarrow> entry_for s r \<Longrightarrow> r = None"
  by (auto simp: entry_for_def settled_entry_def fetchSingleSource_def getFallbackSiteData_def)

lemma entry_for_known: "HOT_NEWS_SOURCES s = Some src \<Longrightarrow> entry_for s r \<Longrightarrow> r \<noteq> None"
  by (auto simp: entry_for_def settled_entry_def fetchSingleSource_def getFallbackSiteData_def
      Let_def split: sum.splits upstream.splits if_splits)

lemma getMaxSourceId_value: "getMaxSourceId = 9"
  by (simp add: getMaxSourceId_def source_ids_def)

lemma in_range_known:
  assumes "1 \<le> s" and "s \<le> getMaxSourceId"
  shows "\<exists>src. HOT_NEWS_SOURCES s = Some src"
proof -
  from assms have "s = 1 \<or> s = 2 \<or> s = 3 \<or> s = 4 \<or> s = 5 \<or> s = 6 \<or> s = 7 \<or> s = 8 \<or> s = 9"
    unfolding getMaxSourceId_value by arith
  then show ?thesis by (auto simp: HOT_NEWS_SOURCES_def)
qed

lemma cache_get_hit:
  "cache_get now k c = (Some v, c') \<Longrightarrow> c' = c \<and> (\<exists>item. c k = Some item \<and> item_data item = v)"
  by (auto simp: cache_get_def split: option.splits if_splits)

text \<open>
  The invariant holds for the cache of a new server and after \<open>clearCache\<close>, and every
  operation keeps it.
\<close>

lemma cache_inv_empty: "cache_inv Map.empty"
  by (simp add: cache_inv_def)

lemma cache_inv_clear: "cache_inv (cache_clear c)"
  by (simp add: cache_inv_def cache_clear_def)

lemma cache_inv_get: "cache_inv c \<Longrightarrow> cache_inv (snd (cache_get now k c))"
  by (auto simp: cache_inv_def cache_get_def split: option.splits if_splits)

lemma cache_inv_set:
  "cache_inv c \<Longrightarrow> aligned sources rs \<Longrightarrow> cache_inv (cache_set now (cacheKey sources) rs ttl c)"
  by (auto simp: cache_inv_def cache_set_def dest: cacheKey_inj)

lemma aligned_settled:
  "aligned sources (map (\<lambda>i. settled_entry (t i) (sources ! i)
      (map (\<lambda>i. fetchSingleSource (g i) (sources ! i)) [0..<length sources] ! i))
        [0..<length sources])"
  by (simp add: aligned_def entry_for_settled)

lemma aligned_fallback:
  "aligned sources (map (\<lambda>i. getFallbackSiteData (t i) (sources ! i)) [0..<length sources])"
  by (simp add: aligned_def entry_for_fallback)

lemma getHotNews_aligned:
  assumes "cache_inv cache"
  shows "aligned sources (fst (getHotNews e sources cache))"
proof (cases "cache_get (now_at_get e) (cacheKey sources) cache")
  case (Pair r c1)
  show ?thesis
  proof (cases r)
    case None
    with Pair show ?thesis
      by (cases "race e") (simp_all add: getHotNews_def Let_def aligned_settled aligned_fallback)
  next
    case (Some cached)
    with Pair cache_get_hit [of "now_at_get e" "cacheKey sources" cache cached c1]
    obtain item where "cache (cacheKey sources) = Some item" "item_data item = cached" by auto
    with assms have "aligned sources cached" by (auto simp: cache_inv_def)
    with Pair Some show ?thesis by (simp add: getHotNews_def)
  qed
qed

lemma getHotNews_inv:
  assumes "cache_inv cache"
  shows "cache_inv (snd (getHotNews e sources cache))"
proof (cases "cache_get (now_at_get e) (cacheKey sources) cache")
  case (Pair r c1)
  from assms have c1: "cache_inv c1"
    using cache_inv_get [of cache "now_at_get e" "cacheKey sources"] Pair by simp
  show ?thesis
  proof (cases r)
    case None
    with Pair c1 show ?thesis
      by (cases "race e") (simp_all add: getHotNews_def Let_def cache_inv_set aligned_settled)
  next
    case (Some cached)
    with Pair c1 show ?thesis by (simp add: getHotNews_def)
  qed
qed

lemma reachable_inv: "reachable cache \<Longrightarrow> cache_inv cache"
  by (induction rule: reachable.induct) (simp_all add: cache_inv_empty getHotNews_inv cache_inv_clear)

text \<open>On a cache miss the result is built from the requests, position by position.\<close>

lemma getHotNews_miss:
  assumes "fst (cache_get (now_at_get e) (cacheKey sources) cache) = None"
    and "i < length sources"
  shows "fst (getHotNews e sources cache) ! i =
           (if race e = OtherError then getFallbackSiteData (locale_time e i) (sources ! i)
            else settled_entry (locale_time e i) (sources ! i)
                   (fetchSingleSource (net e i) (sources ! i)))"
  using assms
  by (cases "cache_get (now_at_get e) (cacheKey sources) cache"; cases "race e")
     (simp_all add: getHotNews_def Let_def)

text \<open>
  C1. In every cache state the server can reach, for every sequence of ids, every
  answer of the upstream to each request and every outcome of the race, the result
  has one entry for each requested id, in the order of the request: entry \<open>i\<close> is
  the value of a request for the \<open>i\<close>-th id or the fallback for the \<open>i\<close>-th id. For
  an id in \<open>[1, maxId]\<close> the entry is not \<open>null\<close>. On a cache miss entry \<open>i\<close> is built
  from the \<open>i\<close>-th request of this call.
\<close>

theorem getHotNews_length_order:
  assumes "reachable cache"
  shows "length (fst (getHotNews e sources cache)) = length sources \<and>
    (\<forall>i < length sources. entry_for (sources ! i) (fst (getHotNews e sources cache) ! i)) \<and>
    (\<forall>i < length sources. 1 \<le> sources ! i \<and> sources ! i \<le> getMaxSourceId
        \<longrightarrow> fst (getHotNews e sources cache) ! i \<noteq> None) \<and>
    (fst (cache_get (now_at_get e) (cacheKey sources) cache) = None \<longrightarrow>
       (\<forall>i < length sources. fst (getHotNews e sources cache) ! i =
          (if race e = OtherError then getFallbackSiteData (locale_time e i) (sources ! i)
           else settled_entry (locale_time e i) (sources ! i)
                  (fetchSingleSource (net e i) (sources ! i)))))"
proof -
  from getHotNews_aligned [OF reachable_inv [OF assms], of sources e]
  have len: "length (fst (getHotNews e sources cache)) = length sources"
    and ent: "\<forall>i < length sources. entry_for (sources ! i) (fst (getHotNews e sources cache) ! i)"
    by (simp_all add: aligned_def)
  have "fst (getHotNews e sources cache) ! i \<noteq> None"
    if "i < length sources" "1 \<le> sources ! i" "sources ! i \<le> getMaxSourceId" for i
    using that ent in_range_known [of "sources ! i"] entry_for_known by blast
  with len ent getHotNews_miss [of e sources cache] show ?thesis by blast
qed

theorem getHotNews_length_order_witness:
  "reachable Map.empty \<and>
   length (fst (getHotNews example_env [1, 3, 7] Map.empty)) = 3 \<and>
   fst (getHotNews example_env [1, 3, 7] Map.empty) ! 0 \<noteq> None \<and>
   fst (getHotNews example_env [1, 3, 7] Map.empty) ! 1 \<noteq> None \<and>
   fst (getHotNews example_env [1, 3, 7] Map.empty) ! 2 \<noteq> None \<and>
   reachable (snd (getHotNews example_env [1, 3, 7] Map.empty)) \<and>
   length (fst (getHotNews example_env [1, 3, 7]
     (snd (getHotNews example_env [1, 3, 7] Map.empty)))) = 3"
proof -
  have new: "reachable Map.empty" by (rule reachable.start)
  have warm: "reachable (snd (getHotNews example_env [1, 3, 7] Map.empty))"
    by (rule reachable.call [OF reachable.start])
  from getHotNews_length_order [OF new, of example_env "[1, 3, 7]"]
    getHotNews_length_order [OF warm, of example_env "[1, 3, 7]"] new warm
  show ?thesis
    by (simp add: getMaxSourceId_value nth_Cons' less_Suc_eq all_conj_distrib numeral_2_eq_2)
qed

text \<open>
  C6. On a cache miss, when all requests settle before the timer the result is stored
  under the cache key with an expiry five minutes after the store, and when the timer
  fires first it is stored with an expiry two minutes after the store.
\<close>

theorem getHotNews_ttl:
  assumes "fst (cache_get (now_at_get e) (cacheKey sources) cache) = None"
  shows "(race e = AllSettled \<longrightarrow>
            snd (getHotNews e sources cache) (cacheKey sources) =
              Some \<lparr>item_data = fst (getHotNews e sources cache),
                    item_expires = now_at_set e + 5 * 60 * 1000\<rparr>) \<and>
         (race e = TimerFired \<longrightarrow>
            snd (getHotNews e sources cache) (cacheKey sources) =
              Some \<lparr>item_data = fst (getHotNews e sources cache),
                    item_expires = now_at_set e + 2 * 60 * 1000\<rparr>)"
  using assms
  by (cases "cache_get (now_at_get e) (cacheKey sources) cache")
     (simp add: getHotNews_def Let_def cache_set_def)

lemma example_miss:
  "fst (cache_get (now_at_get (example_env\<lparr>race := r\<rparr>)) (cacheKey [1, 3, 7]) Map.empty) = None"
  by (simp add: cache_get_def)

theorem getHotNews_ttl_witness:
  "fst (cache_get (now_at_get example_env) (cacheKey [1, 3, 7]) Map.empty) = None \<and>
   race example_env = AllSettled \<and>
   snd (getHotNews example_env [1, 3, 7] Map.empty) (cacheKey [1, 3, 7]) =
     Some \<lparr>item_data = fst (getHotNews example_env [1, 3, 7] Map.empty), item_expires = 301500\<rparr> \<and>
   race (example_env\<lparr>race := TimerFired\<rparr>) = TimerFired \<and>
   snd (getHotNews (example_env\<lparr>race := TimerFired\<rparr>) [1, 3, 7] Map.empty) (cacheKey [1, 3, 7]) =
     Some \<lparr>item_data = fst (getHotNews (example_env\<lparr>race := TimerFired\<rparr>) [1, 3, 7] Map.empty),
           item_expires = 121500\<rparr>"
  using getHotNews_ttl [OF example_miss [of AllSettled]]
    getHotNews_ttl [OF example_miss [of TimerFired]] example_miss [of AllSettled]
  by (simp add: example_env_def)

text \<open>
  C10. In every cache state the server can reach, for a requested id that is not a key
  of the registry the result still has an entry at the position of that id, and this
  entry is \<open>null\<close>: the request for the id is rejected and \<open>getFallbackSiteData\<close>
  returns \<open>null\<close> for it.
\<close>

theorem getHotNews_unknown_id:
  assumes "reachable cache" and "i < length sources" and "HOT_NEWS_SOURCES (sources ! i) = None"
  shows "length (fst (getHotNews e sources cache)) = length sources \<and>
         fst (getHotNews e sources cache) ! i = None \<and>
         getFallbackSiteData t (sources ! i) = None \<and>
         (\<exists>m. fetchSingleSource g (sources ! i) = Inl m)"
  using getHotNews_aligned [OF reachable_inv [OF assms(1)], of sources e] assms(2,3)
    entry_for_unknown
  by (auto simp: aligned_def getFallbackSiteData_def fetchSingleSource_def)

theorem getHotNews_unknown_id_witness:
  "reachable Map.empty \<and> (1 :: nat) < length [1, 42 :: int] \<and>
   HOT_NEWS_SOURCES ([1, 42] ! 1) = None \<and>
   length (fst (getHotNews example_env [1, 42] Map.empty)) = 2 \<and>
   fst (getHotNews example_env [1, 42] Map.empty) ! 1 = None"
proof -
  have inv: "reachable Map.empty" by (rule reachable.start)
  have unknown: "HOT_NEWS_SOURCES ([1, 42] ! 1) = None" by (simp add: HOT_NEWS_SOURCES_def)
  from getHotNews_unknown_id [OF inv _ unknown, of example_env] inv unknown
  show ?thesis by simp
qed

section \<open>Properties of \<open>generateFallbackContent\<close>\<close>

lemmas url_defs =
  std_url_def std_hostname_def std_resolve_def parse_url_def url_input_def split_scheme_def
  url_string_def host_of_def dir_of_def is_alpha_def is_digit_def scheme_char_def
  authority_end_def path_end_def fold_case_def js_def Let_def

lemma link_line:
  \<open>str_includes (a @ b @ c @ js ''<a href="'' @ url @ js ''" target="_blank">'' @ d)
     (js ''<a href="'' @ url @ js ''" target="_blank">'')\<close>
proof -
  have \<open>a @ b @ c @ js ''<a href="'' @ url @ js ''" target="_blank">'' @ d
        = (a @ b @ c) @ (js ''<a href="'' @ url @ js ''" target="_blank">'') @ d\<close>
    by simp
  then show ?thesis by (simp only: str_includes_append)
qed

lemma video_fallback_link:
  \<open>str_includes (video_fallback siteName summary url hostname)
     (js ''<a href="'' @ url @ js ''" target="_blank">'')\<close>
  unfolding video_fallback_def
  by (rule str_includes_join_ex) (simp only: list_ex_Cons_iff link_line simp_thms)

lemma generic_fallback_link:
  \<open>str_includes (generic_fallback siteName summary url hostname)
     (js ''<a href="'' @ url @ js ''" target="_blank">'')\<close>
  unfolding generic_fallback_def
  by (rule str_includes_join_ex) (simp only: list_ex_Cons_iff link_line simp_thms)

text \<open>
  C8, as the code has it. \<open>generateFallbackContent\<close> does no input or output: its result
  is a function of the URL, the title, the summary and the \<open>URL\<close> class. For every URL
  that the \<open>URL\<close> constructor accepts it returns an \<open>ArticleContent\<close>, and the content
  holds a link whose \<open>href\<close> is the URL as given.
\<close>

theorem generateFallbackContent_link:
  assumes "url_hostname U url = Some hostname"
  shows \<open>\<exists>a. generateFallbackContent U url title summary = Inr a \<and>
           str_includes (art_content a) (js ''<a href="'' @ url @ js ''" target="_blank">'')\<close>
  using assms
  by (simp add: generateFallbackContent_def Let_def video_fallback_link generic_fallback_link)

lemma zhihu_hostname:
  "url_hostname std_url (js ''https://www.zhihu.com/question/1'') = Some (js ''www.zhihu.com'')"
  by (simp add: url_defs)

theorem generateFallbackContent_link_witness:
  \<open>url_hostname std_url (js ''https://www.zhihu.com/question/1'') = Some (js ''www.zhihu.com'') \<and>
   (\<exists>a. generateFallbackContent std_url (js ''https://www.zhihu.com/question/1'') [] [] = Inr a \<and>
      str_includes (art_content a)
        (js ''<a href="'' @ js ''https://www.zhihu.com/question/1'' @ js ''" target="_blank">''))\<close>
  using generateFallbackContent_link [OF zhihu_hostname, of "[]" "[]"] zhihu_hostname by simp

text \<open>
  C8 as stated fails: on a string that is not a URL the constructor throws and the
  function returns nothing.
\<close>

theorem generateFallbackContent_throws:
  "generateFallbackContent std_url (js ''not a url'') (js ''title'') (js ''summary'') =
     Inl (TypeError (js ''Invalid URL''))"
  by (simp add: generateFallbackContent_def url_defs)

section \<open>Properties of the webview rewriter\<close>









lemma map_of_set_attr: "map_of (set_attr a v as) a = Some v"
  by (induction as) auto

lemma img_srcs_each_link: "img_srcs (each_element (fix_link U url) n) = img_srcs n"
proof (induction n)
  case (Element t as cs)
  have "t = js ''img'' \<Longrightarrow> fix_link U url t as = as"
    by (simp add: fix_link_def js_def)
  with Element show ?case by (auto cong: map_cong)
qed simp_all

lemma img_srcs_each_img:
  "img_srcs (each_element (fix_img U url) n) = map (rewritten_src U url) (img_srcs n)"
proof (induction n)
  case (Element t as cs)
  have "concat (map (img_srcs \<circ> each_element (fix_img U url)) cs)
        = map (rewritten_src U url) (concat (map img_srcs cs))"
    using Element by (simp add: map_concat cong: map_cong)
  moreover have
    "(if t = js ''img''
      then (case map_of (fix_img U url t as) (js ''src'') of None \<Rightarrow> [] | Some s \<Rightarrow> [s]) else [])
     = map (rewritten_src U url)
         (if t = js ''img''
          then (case map_of as (js ''src'') of None \<Rightarrow> [] | Some s \<Rightarrow> [s]) else [])"
    by (auto simp: fix_img_def rewritten_src_def map_of_set_attr split: option.splits)
  ultimately show ?case by simp
qed simp_all

lemma head_additions_no_img: "n \<in> set head_additions \<Longrightarrow> img_srcs n = []"
  by (auto simp: head_additions_def js_def)

lemma img_srcs_append_to: "img_srcs (append_to (js ''head'') head_additions n) = img_srcs n"
proof (induction n)
  case (Element t as cs)
  then show ?case by (auto simp: head_additions_no_img cong: map_cong)
qed simp_all

lemma rewrite_document_img_srcs:
  "concat (map img_srcs (rewrite_document U url doc)) =
   map (rewritten_src U url)
     (concat (map img_srcs
        (remove_sel is_ad (remove_sel (tag_is (js ''iframe''))
           (remove_sel (tag_is (js ''script'')) doc)))))"
  by (simp add: rewrite_document_def Let_def img_srcs_append_to img_srcs_each_link
      img_srcs_each_img map_concat comp_def)

lemmas webview_defs =
  processHtmlForWebview_def img_document_def rewrite_document_def remove_sel_def is_ad_def
  has_class_def attr_contains_def fix_img_def fix_link_def render_def void_elements_def
  raw_text_elements_def render_attr_def escape_attr_def head_additions_def


lemma img_example:
  \<open>processHtmlForWebview std_url (Some (img_document (js ''/a.png''))) (js ''<img src="/a.png">'')
      (js ''https://ex.com/page'')
   = (js ''<html><head>'' @ render head_additions @ js ''</head><body>'') @
       js ''<img src="https://ex.com/a.png">'' @ js ''</body></html>''\<close>
  by (simp add: webview_defs url_defs)

subsection \<open>The start of a tag in a concatenation\<close>

text \<open>
  Where a text is cut in two, the start of a tag lies in one of the halves or across the
  cut. It lies across the cut only when the first half ends inside it; a second half
  that begins with \<open><\<close> continues no start of a tag, and one that begins with a
  character that ends a tag name acts as \<open>>\<close> does.
\<close>

lemma lit_ci_split:
  "lit_ci P (x @ b) = Some r \<Longrightarrow>
     (\<exists>r'. lit_ci P x = Some r' \<and> r = r' @ b) \<or>
     (\<exists>P'. lit_ci x P = Some P' \<and> P' \<noteq> [] \<and> lit_ci P' b = Some r)"
proof (induction P x rule: lit_ci.induct)
  case (1 s)
  then show ?case by simp
next
  case (2 p ps)
  then show ?case by simp
next
  case (3 p ps c cs)
  then show ?case by (auto split: if_splits)
qed

lemma lit_ci_subset: "lit_ci x P = Some P' \<Longrightarrow> set P' \<subseteq> set P"
  by (induction x P rule: lit_ci.induct) (auto split: if_splits)

lemma lit_ci_rest: "lit_ci x P = Some P' \<Longrightarrow> x \<noteq> [] \<Longrightarrow> set P' \<subseteq> set (tl P)"
  by (cases x; cases P) (auto split: if_splits dest: lit_ci_subset)

lemma lit_ci_whole: "lit_ci P x = Some [] \<Longrightarrow> lit_ci x P = Some []"
  by (induction P x rule: lit_ci.induct) (auto split: if_splits)

lemma lit_ci_prefix: "lit_ci (x @ y) P = Some r \<Longrightarrow> \<exists>r'. lit_ci x P = Some r'"
  by (induction x P rule: lit_ci.induct) (auto split: if_splits)

lemma lit_ci_chars:
  "lit_ci x P = Some r \<Longrightarrow> e \<in> set x \<Longrightarrow> \<exists>c \<in> set P. fold_case c = fold_case e"
  by (induction x P rule: lit_ci.induct) (auto split: if_splits)

lemma sep_char_fold: "sep_char d \<Longrightarrow> fold_case d = d"
  by (auto simp: sep_char_def fold_case_def html_space_def)

lemma fold_case_60: "fold_case 60 = 60"
  by (simp add: fold_case_def)

lemma fold_case_lt: "fold_case c = 60 \<longleftrightarrow> c = 60"
  by (auto simp: fold_case_def)

lemma tag_open_at_break:
  assumes w: "wordy t" and b: "b \<noteq> []" "sep_char (hd b)" and x: "x \<noteq> []"
    and m: "tag_open_at t (x @ b)"
  shows "tag_open_at t x \<or> (lit_ci (js ''<'' @ t) x = Some [] \<and> hd b \<noteq> 60)"
proof -
  from m obtain r where r: "lit_ci (js ''<'' @ t) (x @ b) = Some r"
    and d: "r \<noteq> []" "hd r = 62 \<or> hd r = 47 \<or> html_space (hd r)"
    by (auto simp: tag_open_at_def split: option.splits list.splits)
  from lit_ci_split [OF r] show ?thesis
  proof
    assume "\<exists>r'. lit_ci (js ''<'' @ t) x = Some r' \<and> r = r' @ b"
    then obtain r' where r': "lit_ci (js ''<'' @ t) x = Some r'" "r = r' @ b" by blast
    show ?thesis
    proof (cases r')
      case Nil
      with r' d have "hd b \<noteq> 60" by (auto simp: html_space_def)
      with Nil r' show ?thesis by simp
    next
      case (Cons e es)
      with r' d have "tag_open_at t x" by (auto simp: tag_open_at_def)
      then show ?thesis ..
    qed
  next
    assume "\<exists>P'. lit_ci x (js ''<'' @ t) = Some P' \<and> P' \<noteq> [] \<and> lit_ci P' b = Some r"
    then obtain P' where P': "P' \<noteq> []" "lit_ci x (js ''<'' @ t) = Some P'" "lit_ci P' b = Some r"
      by blast
    from lit_ci_rest [OF P'(2) x] have "set P' \<subseteq> set t" by (simp add: js_def)
    with P'(1) hd_in_set [of P'] have "hd P' \<in> set t" by blast
    with w have n: "\<not> sep_char (fold_case (hd P'))" by (auto simp: wordy_def list_all_iff)
    from P'(1,3) b have "fold_case (hd P') = fold_case (hd b)"
      by (cases P'; cases b) (auto split: if_splits)
    with n b sep_char_fold show ?thesis by simp
  qed
qed

lemma has_tag_break_sep:
  assumes "wordy t" "b \<noteq> []" "sep_char (hd b)" "hd b \<noteq> 60"
  shows "has_tag t (a @ b) \<Longrightarrow> has_tag t (a @ js ''>'') \<or> has_tag t b"
proof (induction a)
  case Nil
  then show ?case by simp
next
  case (Cons c cs)
  from Cons.prems have "tag_open_at t ((c # cs) @ b) \<or> has_tag t (cs @ b)" by simp
  then show ?case
  proof
    assume "tag_open_at t ((c # cs) @ b)"
    from tag_open_at_break [OF assms(1-3) _ this]
    have "tag_open_at t (c # cs) \<or> lit_ci (js ''<'' @ t) (c # cs) = Some []" by auto
    then have "tag_open_at t ((c # cs) @ js ''>'')"
    proof
      assume "tag_open_at t (c # cs)"
      then show ?thesis by (rule tag_open_at_append)
    next
      assume "lit_ci (js ''<'' @ t) (c # cs) = Some []"
      from lit_ci_append [OF this, of "js ''>''"] show ?thesis
        by (simp add: tag_open_at_def js_def)
    qed
    then show ?thesis by simp
  next
    assume "has_tag t (cs @ b)"
    with Cons.IH show ?thesis by auto
  qed
qed

lemma has_tag_break_lt:
  assumes "wordy t" "b \<noteq> []" "hd b = 60"
  shows "has_tag t (a @ b) \<Longrightarrow> has_tag t a \<or> has_tag t b"
proof (induction a)
  case Nil
  then show ?case by simp
next
  case (Cons c cs)
  from assms have s: "sep_char (hd b)" by (simp add: sep_char_def)
  from Cons.prems have "tag_open_at t ((c # cs) @ b) \<or> has_tag t (cs @ b)" by simp
  then show ?case
  proof
    assume "tag_open_at t ((c # cs) @ b)"
    from tag_open_at_break [OF assms(1,2) s _ this] assms(3)
    have "tag_open_at t (c # cs)" by auto
    then show ?thesis by simp
  next
    assume "has_tag t (cs @ b)"
    with Cons.IH show ?thesis by auto
  qed
qed

lemma tag_open_at_cut:
  assumes x: "x \<noteq> []" and m: "tag_open_at t (x @ b)"
  shows "tag_open_at t x \<or> lit_ci x (js ''<'' @ t) \<noteq> None"
proof -
  from m obtain r where r: "lit_ci (js ''<'' @ t) (x @ b) = Some r" and d: "r \<noteq> []"
    "hd r = 62 \<or> hd r = 47 \<or> html_space (hd r)"
    by (auto simp: tag_open_at_def split: option.splits list.splits)
  from lit_ci_split [OF r] show ?thesis
  proof
    assume "\<exists>r'. lit_ci (js ''<'' @ t) x = Some r' \<and> r = r' @ b"
    then obtain r' where r': "lit_ci (js ''<'' @ t) x = Some r'" "r = r' @ b" by blast
    show ?thesis
    proof (cases r')
      case Nil
      with r' lit_ci_whole show ?thesis by auto
    next
      case (Cons e es)
      with r' d have "tag_open_at t x" by (auto simp: tag_open_at_def)
      then show ?thesis ..
    qed
  next
    assume "\<exists>P'. lit_ci x (js ''<'' @ t) = Some P' \<and> P' \<noteq> [] \<and> lit_ci P' b = Some r"
    then show ?thesis by auto
  qed
qed

lemma has_tag_cut: "has_tag t (a @ b) \<Longrightarrow> has_tag t a \<or> open_ended t a \<or> has_tag t b"
proof (induction a)
  case Nil
  then show ?case by simp
next
  case (Cons c cs)
  from Cons.prems have "tag_open_at t ((c # cs) @ b) \<or> has_tag t (cs @ b)" by simp
  then show ?case
  proof
    assume "tag_open_at t ((c # cs) @ b)"
    from tag_open_at_cut [OF _ this] show ?thesis by auto
  next
    assume "has_tag t (cs @ b)"
    with Cons.IH show ?thesis by auto
  qed
qed

lemma open_ended_cut: "open_ended t (a @ b) \<Longrightarrow> open_ended t a \<or> open_ended t b"
proof (induction a)
  case Nil
  then show ?case by simp
next
  case (Cons c cs)
  from Cons.prems have "lit_ci ((c # cs) @ b) (js ''<'' @ t) \<noteq> None \<or> open_ended t (cs @ b)"
    by simp
  then show ?case
  proof
    assume "lit_ci ((c # cs) @ b) (js ''<'' @ t) \<noteq> None"
    with lit_ci_prefix have "lit_ci (c # cs) (js ''<'' @ t) \<noteq> None" by fastforce
    then show ?thesis by simp
  next
    assume "open_ended t (cs @ b)"
    with Cons.IH show ?thesis by auto
  qed
qed

lemma closed_append: "closed t a \<Longrightarrow> closed t b \<Longrightarrow> closed t (a @ b)"
  using has_tag_cut [of t a b] open_ended_cut [of t a b] by (auto simp: closed_def)

lemma closed_Nil: "closed t []"
  by (simp add: closed_def)

lemma closed_concat: "(\<And>x. x \<in> set xs \<Longrightarrow> closed t x) \<Longrightarrow> closed t (concat xs)"
  by (induction xs) (simp_all add: closed_Nil closed_append)

lemma no_lt_closed: "60 \<notin> set s \<Longrightarrow> closed t s"
proof (induction s)
  case Nil
  then show ?case by (simp add: closed_def)
next
  case (Cons c cs)
  then have "c \<noteq> 60" "closed t cs" by auto
  then show ?case
    by (auto simp: closed_def tag_open_at_def js_def fold_case_lt fold_case_60 split: if_splits)
qed

lemma escape_text_no_lt: "60 \<notin> set (escape_text s)"
  by (induction s) (auto simp: escape_text_def js_def)

lemma open_ended_snoc:
  "open_ended t (s @ [e]) \<Longrightarrow> \<exists>c \<in> set (js ''<'' @ t). fold_case c = fold_case e"
proof (induction s)
  case Nil
  then show ?case by (auto simp: js_def split: if_splits)
next
  case (Cons c cs)
  from Cons.prems have "lit_ci (c # cs @ [e]) (js ''<'' @ t) \<noteq> None \<or> open_ended t (cs @ [e])"
    by simp
  then show ?case
  proof
    assume "lit_ci (c # cs @ [e]) (js ''<'' @ t) \<noteq> None"
    then obtain r where "lit_ci (c # cs @ [e]) (js ''<'' @ t) = Some r" by auto
    from lit_ci_chars [OF this, of e] show ?thesis by simp
  next
    assume "open_ended t (cs @ [e])"
    with Cons.IH show ?thesis by auto
  qed
qed

lemma has_tag_concat: "x \<in> set xs \<Longrightarrow> has_tag t x \<Longrightarrow> has_tag t (concat xs)"
  by (induction xs) (auto intro: has_tag_append_left has_tag_append_right)

lemma tag_open_at_gt_sep:
  assumes b: "b \<noteq> []" "hd b = 62 \<or> hd b = 47 \<or> html_space (hd b)"
    and m: "tag_open_at t (x @ js ''>'')"
  shows "tag_open_at t (x @ b)"
proof -
  from m obtain r where r: "lit_ci (js ''<'' @ t) (x @ js ''>'') = Some r" and d: "r \<noteq> []"
    "hd r = 62 \<or> hd r = 47 \<or> html_space (hd r)"
    by (auto simp: tag_open_at_def split: option.splits list.splits)
  from lit_ci_split [OF r] show ?thesis
  proof
    assume "\<exists>r'. lit_ci (js ''<'' @ t) x = Some r' \<and> r = r' @ js ''>''"
    then obtain r' where r': "lit_ci (js ''<'' @ t) x = Some r'" "r = r' @ js ''>''" by blast
    from lit_ci_append [OF r'(1), of b] r'(2) d b show ?thesis
      by (cases r'; cases b) (auto simp: tag_open_at_def)
  next
    assume "\<exists>P'. lit_ci x (js ''<'' @ t) = Some P' \<and> P' \<noteq> [] \<and> lit_ci P' (js ''>'') = Some r"
    then obtain P' where "P' \<noteq> []" "lit_ci P' (js ''>'') = Some r" by blast
    with d show ?thesis
      by (cases P'; cases "tl P'") (auto simp: js_def split: if_splits)
  qed
qed

lemma has_tag_gt_sep:
  assumes "b \<noteq> []" "hd b = 62 \<or> hd b = 47 \<or> html_space (hd b)"
  shows "has_tag t (a @ js ''>'') \<Longrightarrow> has_tag t (a @ b)"
proof (induction a)
  case Nil
  then show ?case by (simp add: js_def tag_open_at_def fold_case_def)
next
  case (Cons c cs)
  from Cons.prems have "tag_open_at t ((c # cs) @ js ''>'') \<or> has_tag t (cs @ js ''>'')" by simp
  then show ?case
  proof
    assume "tag_open_at t ((c # cs) @ js ''>'')"
    from tag_open_at_gt_sep [OF assms this] show ?thesis by simp
  next
    assume "has_tag t (cs @ js ''>'')"
    with Cons.IH show ?thesis by simp
  qed
qed

subsection \<open>The rewriter in one pass\<close>

lemma attr_remove_in: "attr (remove_in P n) a = attr n a"
  by (cases n) simp_all

lemma tag_is_remove_in: "tag_is t (remove_in P n) = tag_is t n"
  by (cases n) simp_all

lemma is_ad_remove_in: "is_ad (remove_in P n) = is_ad n"
  by (simp add: is_ad_def has_class_def attr_contains_def attr_remove_in)

lemma filter_remove_in:
  "filter (\<lambda>c. \<not> is_ad c)
     (map (remove_in (tag_is i))
        (filter (\<lambda>c. \<not> tag_is i c) (map (remove_in (tag_is s)) (filter (\<lambda>c. \<not> tag_is s c) cs)))) =
   map (remove_in (tag_is i)) (map (remove_in (tag_is s))
     (filter (\<lambda>c. \<not> (tag_is s c \<or> tag_is i c \<or> is_ad c)) cs))"
  by (induction cs) (simp_all add: tag_is_remove_in is_ad_remove_in)

lemma rewritten_steps:
  "append_to (js ''head'') head_additions
     (each_element (fix_link U url)
        (each_element (fix_img U url)
           (remove_in is_ad (remove_in (tag_is (js ''iframe'')) (remove_in (tag_is (js ''script'')) n))))) =
   rewritten U url n"
proof (induction n)
  case (Element t as cs)
  then show ?case
    by (simp add: filter_remove_in removed_def del: filter.simps filter_filter)
next
  case (Text s)
  then show ?case by simp
next
  case (Comment s)
  then show ?case by simp
next
  case (Doctype d)
  then show ?case by simp
qed

lemma rewrite_document_rewritten:
  "rewrite_document U url doc = map (rewritten U url) (filter (\<lambda>n. \<not> removed n) doc)"
  by (simp add: rewrite_document_def remove_sel_def Let_def filter_remove_in rewritten_steps
      removed_def del: filter_filter)

lemma removed_Text: "\<not> removed (Text s)"
  by (simp add: removed_def is_ad_def has_class_def attr_contains_def)

lemma removed_quiet: "removed n \<Longrightarrow> quiet U url n"
  by (cases n) (simp_all add: removed_def is_ad_def has_class_def attr_contains_def)

lemma raw_children:
  "list_all is_text cs \<Longrightarrow>
   map (render_node True) (map (rewritten U url) (filter (\<lambda>c. \<not> removed c) cs)) = map (render_node True) cs"
proof (induction cs)
  case Nil
  then show ?case by simp
next
  case (Cons c cs)
  then show ?case by (cases c) (simp_all add: removed_Text)
qed

lemma head_not_raw: "js ''head'' \<notin> set raw_text_elements"
  by (simp add: raw_text_elements_def js_def)

subsection \<open>The print of a quiet tree\<close>

lemma script_wordy: "wordy (js ''script'')"
  by (simp add: wordy_def js_def sep_char_def fold_case_def html_space_def)

lemma closed_gt_end:
  "\<not> has_tag (js ''script'') (s @ js ''>'') \<Longrightarrow> closed (js ''script'') (s @ js ''>'')"
  using open_ended_snoc [of "js ''script''" s 62]
  by (auto simp: closed_def js_def fold_case_def)

lemma closed_quote_end:
  \<open>\<not> has_tag (js ''script'') (s @ js ''"'') \<Longrightarrow> closed (js ''script'') (s @ js ''"'')\<close>
  using open_ended_snoc [of "js ''script''" s 34]
  by (auto simp: closed_def js_def fold_case_def)

lemma closed_render_attr:
  "\<not> has_tag (js ''script'') (render_attr a) \<Longrightarrow> closed (js ''script'') (render_attr a)"
  using closed_quote_end [of \<open>js '' '' @ fst a @ js ''="'' @ escape_attr (snd a)\<close>]
  by (simp add: render_attr_def)

lemma closed_start_tag:
  assumes t: "\<not> has_tag (js ''script'') (js ''<'' @ t @ js ''>'')"
    and a: "list_all (\<lambda>a. \<not> has_tag (js ''script'') (render_attr a)) as"
  shows "closed (js ''script'') (js ''<'' @ t @ concat (map render_attr as) @ js ''>'')"
proof -
  let ?b = "concat (map render_attr as) @ js ''>''"
  from a have "closed (js ''script'') (concat (map render_attr as))"
    by (intro closed_concat) (auto simp: list_all_iff closed_render_attr)
  moreover have "closed (js ''script'') (js ''>'')"
    by (rule no_lt_closed) (simp add: js_def)
  ultimately have b: "closed (js ''script'') ?b" by (rule closed_append)
  have h: "?b \<noteq> []" "sep_char (hd ?b)" "hd ?b \<noteq> 60"
    by (cases as; simp add: js_def sep_char_def render_attr_def html_space_def)+
  have "\<not> has_tag (js ''script'') ((js ''<'' @ t) @ ?b)"
  proof
    assume "has_tag (js ''script'') ((js ''<'' @ t) @ ?b)"
    from has_tag_break_sep [OF script_wordy h this] t b show False
      by (simp add: closed_def)
  qed
  then have "\<not> has_tag (js ''script'') (((js ''<'' @ t) @ concat (map render_attr as)) @ js ''>'')"
    by simp
  from closed_gt_end [OF this] show ?thesis by simp
qed

lemma closed_end_tag:
  assumes t: "\<not> has_tag (js ''script'') (js ''<'' @ t @ js ''>'')"
  shows "closed (js ''script'') (js ''</'' @ t @ js ''>'')"
proof -
  from t have "\<not> has_tag (js ''script'') (t @ js ''>'')" by (simp add: js_def)
  then have "\<not> has_tag (js ''script'') ((js ''</'' @ t) @ js ''>'')"
    by (simp add: js_def tag_open_at_def fold_case_def)
  from closed_gt_end [OF this] show ?thesis by simp
qed

lemma closed_content:
  assumes c: "\<not> has_tag (js ''script'') s" and e: "closed (js ''script'') (js ''</'' @ t @ js ''>'')"
  shows "closed (js ''script'') (s @ js ''</'' @ t @ js ''>'')"
proof -
  let ?b = "js ''</'' @ t @ js ''>''"
  have h: "?b \<noteq> []" "hd ?b = 60" by (simp_all add: js_def)
  have "\<not> has_tag (js ''script'') (s @ ?b)"
  proof
    assume "has_tag (js ''script'') (s @ ?b)"
    from has_tag_break_lt [OF script_wordy h this] c e show False by (simp add: closed_def)
  qed
  then have "\<not> has_tag (js ''script'') ((s @ js ''</'' @ t) @ js ''>'')" by simp
  from closed_gt_end [OF this] show ?thesis by simp
qed

lemma mobile_css_no_lt: "60 \<notin> set mobile_css"
  by (simp add: mobile_css_def nl_def js_def)

lemma closed_head_additions:
  "closed (js ''script'') (concat (map (render_node False) head_additions))"
proof -
  have m: "closed (js ''script'') (render_node False (Element (js ''meta'')
        [(js ''name'', js ''viewport''),
         (js ''content'', js ''width=device-width, initial-scale=1.0, maximum-scale=1.0, user-scalable=no'')] []))"
    using closed_start_tag [of "js ''meta''" "[(js ''name'', js ''viewport''),
         (js ''content'', js ''width=device-width, initial-scale=1.0, maximum-scale=1.0, user-scalable=no'')]"]
    by (simp add: void_elements_def) (simp add: js_def render_attr_def escape_attr_def tag_open_at_def fold_case_def)
  have s: "closed (js ''script'') (render_node False (Element (js ''style'') [] [Text mobile_css]))"
  proof -
    have "closed (js ''script'') (js ''<style>'')"
      using closed_start_tag [of "js ''style''" "[]"]
      by (simp add: js_def tag_open_at_def fold_case_def)
    moreover have "closed (js ''script'') (mobile_css @ js ''</style>'')"
      using closed_content [of mobile_css "js ''style''"] closed_end_tag [of "js ''style''"]
        no_lt_closed [OF mobile_css_no_lt, of "js ''script''"]
      by (simp add: closed_def) (simp add: js_def tag_open_at_def fold_case_def)
    ultimately have "closed (js ''script'') (js ''<style>'' @ mobile_css @ js ''</style>'')"
      by (rule closed_append)
    then show ?thesis
      by (simp add: void_elements_def raw_text_elements_def) (simp add: js_def)
  qed
  have t: "\<And>s. closed (js ''script'') (render_node False (Text s))"
    by (simp add: no_lt_closed escape_text_no_lt)
  show ?thesis
    unfolding head_additions_def
    by (rule closed_concat) (use m s t in auto)
qed

lemma quiet_closed:
  "quiet U url n \<Longrightarrow> \<not> removed n \<Longrightarrow>
   closed (js ''script'') (render_node False (rewritten U url n))"
proof (induction n)
  case (Element t as cs)
  let ?as = "fix_link U url t (fix_img U url t as)"
  from Element.prems have n: "\<not> has_tag (js ''script'') (js ''<'' @ t @ js ''>'')"
    and a: "list_all (\<lambda>a. \<not> has_tag (js ''script'') (render_attr a)) ?as"
    by simp_all
  have st: "closed (js ''script'') (js ''<'' @ t @ concat (map render_attr ?as) @ js ''>'')"
    using n a by (rule closed_start_tag)
  show ?case
  proof (cases "t \<in> set void_elements")
    case True
    with st show ?thesis by simp
  next
    case False
    note nv = this
    have et: "closed (js ''script'') (js ''</'' @ t @ js ''>'')"
      using n by (rule closed_end_tag)
    show ?thesis
    proof (cases "t \<in> set raw_text_elements")
      case True
      with Element.prems nv have tx: "list_all is_text cs"
        and c: "\<not> has_tag (js ''script'') (concat (map (render_node True) cs))"
        by simp_all
      from True head_not_raw have nh: "t \<noteq> js ''head''" by auto
      from closed_content [OF c et]
      have "closed (js ''script'') (concat (map (render_node True) cs) @ js ''</'' @ t @ js ''>'')" .
      with st have "closed (js ''script'')
          ((js ''<'' @ t @ concat (map render_attr ?as) @ js ''>'') @
           concat (map (render_node True) cs) @ js ''</'' @ t @ js ''>'')"
        by (rule closed_append)
      with True nv nh raw_children [OF tx, of U url] show ?thesis by simp
    next
      case False
      with Element.prems nv have q: "list_all (quiet U url) cs" by simp
      have k: "closed (js ''script'')
          (concat (map (render_node False) (map (rewritten U url) (filter (\<lambda>c. \<not> removed c) cs))))"
        by (rule closed_concat) (use q Element.IH in \<open>auto simp: list_all_iff\<close>)
      have h: "closed (js ''script'')
          (concat (map (render_node False) (if t = js ''head'' then head_additions else [])))"
        by (simp add: closed_head_additions closed_Nil)
      from closed_append [OF k h] have "closed (js ''script'')
          (concat (map (render_node False)
             (map (rewritten U url) (filter (\<lambda>c. \<not> removed c) cs) @
              (if t = js ''head'' then head_additions else []))))"
        by simp
      from closed_append [OF st closed_append [OF this et]] False nv show ?thesis by simp
    qed
  qed
next
  case (Text s)
  then show ?case by (simp add: no_lt_closed escape_text_no_lt)
next
  case (Comment s)
  then have "\<not> has_tag (js ''script'') ((js ''<!--'' @ s @ js ''--'') @ js ''>'')"
    by (simp add: js_def)
  from closed_gt_end [OF this] show ?case by (simp add: js_def)
next
  case (Doctype d)
  then have "\<not> has_tag (js ''script'') ((js ''<!DOCTYPE '' @ d) @ js ''>'')"
    by (simp add: js_def)
  from closed_gt_end [OF this] show ?case by (simp add: js_def)
qed

lemma quiet_render:
  "list_all (quiet U url) doc \<Longrightarrow> closed (js ''script'') (render (rewrite_document U url doc))"
  unfolding render_def rewrite_document_rewritten
  by (rule closed_concat) (auto simp: list_all_iff quiet_closed)

text \<open>
  The condition is the exact one for the trees of the parser: when a tree whose raw
  text elements hold text is not quiet, the start of a \<open>script\<close> tag is in the print
  of the rewritten tree.
\<close>

lemma loud_start_tag:
  assumes "has_tag (js ''script'') (js ''<'' @ t @ js ''>'') \<or>
           \<not> list_all (\<lambda>a. \<not> has_tag (js ''script'') (render_attr a)) as"
  shows "has_tag (js ''script'') (js ''<'' @ t @ concat (map render_attr as) @ js ''>'')"
  using assms
proof
  assume t: "has_tag (js ''script'') (js ''<'' @ t @ js ''>'')"
  let ?b = "concat (map render_attr as) @ js ''>''"
  have "?b \<noteq> []" "hd ?b = 62 \<or> hd ?b = 47 \<or> html_space (hd ?b)"
    by (cases as; simp add: js_def render_attr_def html_space_def)+
  from has_tag_gt_sep [OF this, of "js ''script''" "js ''<'' @ t"] t show ?thesis by simp
next
  assume "\<not> list_all (\<lambda>a. \<not> has_tag (js ''script'') (render_attr a)) as"
  then obtain a where "a \<in> set as" "has_tag (js ''script'') (render_attr a)"
    by (auto simp: list_all_iff)
  then have "has_tag (js ''script'') (concat (map render_attr as))"
    by (intro has_tag_concat [of "render_attr a"]) auto
  then have "has_tag (js ''script'') ((js ''<'' @ t) @ concat (map render_attr as) @ js ''>'')"
    by (intro has_tag_append_left has_tag_append_right)
  then show ?thesis by simp
qed

lemma not_quiet_has_tag:
  "raw_is_text n \<Longrightarrow> \<not> quiet U url n \<Longrightarrow>
   has_tag (js ''script'') (render_node False (rewritten U url n))"
proof (induction n)
  case (Element t as cs)
  let ?as = "fix_link U url t (fix_img U url t as)"
  let ?st = "js ''<'' @ t @ concat (map render_attr ?as) @ js ''>''"
  let ?cs = "map (rewritten U url) (filter (\<lambda>c. \<not> removed c) cs) @
             (if t = js ''head'' then head_additions else [])"
  let ?in = "concat (map (render_node (t \<in> set raw_text_elements)) ?cs)"
  show ?case
  proof (cases "has_tag (js ''script'') (js ''<'' @ t @ js ''>'') \<or>
           \<not> list_all (\<lambda>a. \<not> has_tag (js ''script'') (render_attr a)) ?as")
    case True
    from loud_start_tag [OF this] have "has_tag (js ''script'') ?st" .
    then have "has_tag (js ''script'')
        (?st @ (if t \<in> set void_elements then [] else ?in @ js ''</'' @ t @ js ''>''))"
      by (rule has_tag_append_right)
    then show ?thesis by simp
  next
    case False
    with Element.prems have nv: "t \<notin> set void_elements" by auto
    have "has_tag (js ''script'') ?in"
    proof (cases "t \<in> set raw_text_elements")
      case True
      with Element.prems have tx: "list_all is_text cs" by simp
      from True head_not_raw have nh: "t \<noteq> js ''head''" by auto
      from Element.prems False nv True tx
      have "has_tag (js ''script'') (concat (map (render_node True) cs))" by auto
      with True nh raw_children [OF tx, of U url] show ?thesis by simp
    next
      case r: False
      with Element.prems False nv obtain c where c: "c \<in> set cs" "\<not> quiet U url c"
        by (auto simp: list_all_iff)
      then have nr: "\<not> removed c" by (auto dest: removed_quiet)
      from Element.prems c have "raw_is_text c" by (auto simp: list_all_iff)
      with Element.IH c have "has_tag (js ''script'') (render_node False (rewritten U url c))"
        by blast
      moreover from c nr have "render_node False (rewritten U url c) \<in> set (map (render_node False) ?cs)"
        by auto
      ultimately have "has_tag (js ''script'') (concat (map (render_node False) ?cs))"
        by (rule has_tag_concat [rotated])
      with r show ?thesis by simp
    qed
    then have "has_tag (js ''script'') (?st @ ?in @ js ''</'' @ t @ js ''>'')"
      by (intro has_tag_append_left has_tag_append_right)
    with nv show ?thesis by simp
  qed
next
  case (Text s)
  then show ?case by simp
next
  case (Comment s)
  then show ?case by simp
next
  case (Doctype d)
  then show ?case by simp
qed

lemma not_quiet_render:
  assumes "list_all raw_is_text doc" "\<not> list_all (quiet U url) doc"
  shows "has_tag (js ''script'') (render (rewrite_document U url doc))"
proof -
  from assms obtain n where n: "n \<in> set doc" "\<not> quiet U url n" "raw_is_text n"
    by (auto simp: list_all_iff)
  then have "\<not> removed n" by (auto dest: removed_quiet)
  with n have "render_node False (rewritten U url n) \<in>
      set (map (render_node False) (map (rewritten U url) (filter (\<lambda>n. \<not> removed n) doc)))"
    by auto
  with not_quiet_has_tag [OF n(3,2)] show ?thesis
    unfolding render_def rewrite_document_rewritten by (rule has_tag_concat [rotated])
qed

lemma fetchArticleHtml_script_tag_iff:
  assumes "url_hostname U url = Some h" "list_all raw_is_text doc"
  shows "has_tag (js ''script'') (fetchArticleHtml U (HttpOk html) (Some doc) url) \<longleftrightarrow>
         \<not> list_all (quiet U url) doc"
  using assms quiet_render [of U url doc] not_quiet_render [of doc U url]
  by (auto simp: fetchArticleHtml_def processHtmlForWebview_def closed_def)









text \<open>
  C7, as the code has it. The \<open>src\<close> attributes of the \<open>img\<close> elements of the rewritten
  tree are those of the tree after the removals, each one rewritten: a \<open>src\<close> that is
  not empty, does not begin with the four characters \<open>http\<close> and does not begin with
  \<open>data:\<close> is replaced by its resolution against the URL of the page when the
  resolution succeeds, and every other \<open>src\<close> is kept. For the fragment
  \<open><img src="/a.png">\<close> and the page \<open>https://ex.com/page\<close> the result contains
  \<open><img src="https://ex.com/a.png">\<close>.
\<close>

theorem processHtmlForWebview_img_src:
  \<open>concat (map img_srcs (rewrite_document U url doc)) =
     map (rewritten_src U url)
       (concat (map img_srcs
          (remove_sel is_ad (remove_sel (tag_is (js ''iframe''))
             (remove_sel (tag_is (js ''script'')) doc))))) \<and>
   (src \<noteq> [] \<and> \<not> startsWith src (js ''http'') \<and> \<not> startsWith src (js ''data:'') \<and>
    url_resolve U src url = Some absoluteUrl \<longrightarrow> rewritten_src U url src = absoluteUrl) \<and>
   str_includes
     (processHtmlForWebview std_url (Some (img_document (js ''/a.png''))) (js ''<img src="/a.png">'')
        (js ''https://ex.com/page''))
     (js ''<img src="https://ex.com/a.png">'')\<close>
proof -
  have \<open>str_includes
     (processHtmlForWebview std_url (Some (img_document (js ''/a.png''))) (js ''<img src="/a.png">'')
        (js ''https://ex.com/page''))
     (js ''<img src="https://ex.com/a.png">'')\<close>
    by (simp only: img_example str_includes_append)
  then show ?thesis
    by (simp add: rewrite_document_img_srcs rewritten_src_def)
qed

lemma slash_a_resolves:
  "url_resolve std_url (js ''/a.png'') (js ''https://ex.com/page'') = Some (js ''https://ex.com/a.png'')"
  by (simp add: url_defs)

theorem processHtmlForWebview_img_src_witness:
  \<open>js ''/a.png'' \<noteq> [] \<and> \<not> startsWith (js ''/a.png'') (js ''http'') \<and>
   \<not> startsWith (js ''/a.png'') (js ''data:'') \<and>
   url_resolve std_url (js ''/a.png'') (js ''https://ex.com/page'') = Some (js ''https://ex.com/a.png'') \<and>
   rewritten_src std_url (js ''https://ex.com/page'') (js ''/a.png'') = js ''https://ex.com/a.png'' \<and>
   concat (map img_srcs
     (rewrite_document std_url (js ''https://ex.com/page'') (img_document (js ''/a.png''))))
     = [js ''https://ex.com/a.png'']\<close>
proof -
  have guard: "js ''/a.png'' \<noteq> [] \<and> \<not> startsWith (js ''/a.png'') (js ''http'') \<and>
      \<not> startsWith (js ''/a.png'') (js ''data:'')"
    by (simp add: js_def)
  have srcs: "concat (map img_srcs
      (remove_sel is_ad (remove_sel (tag_is (js ''iframe''))
         (remove_sel (tag_is (js ''script'')) (img_document (js ''/a.png'')))))) = [js ''/a.png'']"
    by (simp add: webview_defs js_def)
  from processHtmlForWebview_img_src
      [of std_url "js ''https://ex.com/page''" "img_document (js ''/a.png'')" "js ''/a.png''"
          "js ''https://ex.com/a.png''"]
    guard slash_a_resolves srcs
  show ?thesis by simp
qed

text \<open>
  C7 as stated fails for a relative \<open>src\<close> that begins with the letters \<open>http\<close>:
  \<open>http.png\<close> has no scheme and is no data URI, its resolution against the page is
  \<open>https://ex.com/http.png\<close>, and the rewriter leaves it as it is.
\<close>

theorem processHtmlForWebview_http_prefix_kept:
  \<open>split_scheme (js ''http.png'') = None \<and> \<not> startsWith (js ''http.png'') (js ''data:'') \<and>
   url_resolve std_url (js ''http.png'') (js ''https://ex.com/page'') = Some (js ''https://ex.com/http.png'') \<and>
   processHtmlForWebview std_url (Some (img_document (js ''http.png''))) (js ''<img src="http.png">'')
      (js ''https://ex.com/page'')
     = js ''<html><head>'' @ render head_additions @ js ''</head><body><img src="http.png"></body></html>''\<close>
  by (simp add: webview_defs url_defs)

end
